theory Spec2Isabelle
  imports Complex_Main
begin

section \<open>Values, errors and Python built-ins used by flick.py\<close>

text \<open>
  Values decoded from JSON replies and placed into JSON requests. A Python \<open>dict\<close> is an
  association list (looked up with \<open>map_of\<close>), \<open>None\<close> is \<open>JNull\<close>, a Python float is a
  \<open>double\<close> in \<open>JNum\<close>. A \<open>char\<close> stands for a Unicode code point below 256.
\<close>

subsection \<open>Python floats\<close>

text \<open>
  A Python float is an IEEE 754 binary64 number: a finite value, an infinity, or NaN.
  The two zeros are not told apart. Every operation is the exact operation followed by
  rounding to the nearest representable value, ties to the even significand.
\<close>

datatype double = Fin real | PInf | NInf | NaN

text \<open>The integer nearest to \<open>r\<close>, the even one of two equally near.\<close>

definition round_even :: "real \<Rightarrow> int" where
  "round_even r =
     (let f = \<lfloor>r\<rfloor> in
      if r - of_int f < 1 / 2 then f
      else if 1 / 2 < r - of_int f then f + 1
      else if even f then f else f + 1)"

text \<open>
  Rounding of a real. With \<open>2 ^ e \<le> \<bar>x\<bar> < 2 ^ (e + 1)\<close> the representable values around
  \<open>x\<close> are the multiples of \<open>2 ^ (e - 52)\<close> (53 significant bits); below \<open>2 ^ (- 1022)\<close> the
  spacing stays \<open>2 ^ (- 1074)\<close>; a result of magnitude \<open>2 ^ 1024\<close> or more is an infinity.
\<close>

definition round_double :: "real \<Rightarrow> double" where
  "round_double x =
     (if x = 0 then Fin 0
      else
        (let e = max \<lfloor>log 2 \<bar>x\<bar>\<rfloor> (- 1022);
             y = of_int (round_even (x / 2 powi (e - 52))) * 2 powi (e - 52)
         in if 2 ^ 1024 \<le> \<bar>y\<bar> then (if 0 < x then PInf else NInf) else Fin y))"

fun dneg :: "double \<Rightarrow> double" where
  "dneg (Fin a) = Fin (- a)"
| "dneg PInf = NInf"
| "dneg NInf = PInf"
| "dneg NaN = NaN"

text \<open>\<open>a + b\<close> and \<open>a - b\<close>.\<close>

fun dadd :: "double \<Rightarrow> double \<Rightarrow> double" where
  "dadd (Fin a) (Fin b) = round_double (a + b)"
| "dadd NaN b = NaN"
| "dadd a NaN = NaN"
| "dadd PInf NInf = NaN"
| "dadd NInf PInf = NaN"
| "dadd PInf b = PInf"
| "dadd NInf b = NInf"
| "dadd (Fin a) b = b"

definition dsub :: "double \<Rightarrow> double \<Rightarrow> double" where
  "dsub a b = dadd a (dneg b)"

text \<open>\<open>a * b\<close>: an infinity times zero is NaN, otherwise the signs multiply.\<close>

fun dsign :: "double \<Rightarrow> real" where
  "dsign (Fin a) = sgn a"
| "dsign PInf = 1"
| "dsign NInf = - 1"
| "dsign NaN = 0"

fun dmul :: "double \<Rightarrow> double \<Rightarrow> double" where
  "dmul (Fin a) (Fin b) = round_double (a * b)"
| "dmul NaN b = NaN"
| "dmul a NaN = NaN"
| "dmul a b =
     (if dsign a * dsign b = 0 then NaN else if 0 < dsign a * dsign b then PInf else NInf)"

text \<open>\<open>a / 2\<close>.\<close>

fun dhalf :: "double \<Rightarrow> double" where
  "dhalf (Fin a) = round_double (a / 2)"
| "dhalf d = d"

datatype json =
    JNull
  | JBool bool
  | JInt int
  | JNum double
  | JStr string
  | JList "json list"
  | JObj "(string \<times> json) list"

datatype error =
    HTTPError nat string
  | TransportError
  | JSONDecodeError
  | RuntimeError string
  | ValueError
  | TypeError
  | AttributeError
  | KeyError
  | ZeroDivisionError
  | OverflowError
  | SystemExit string

text \<open>
  \<open>float(n)\<close> of an integer, as in \<open>n * x\<close> for a float \<open>x\<close>: the nearest float, or an
  OverflowError when there is none.
\<close>

definition d_of_int :: "int \<Rightarrow> error + double" where
  "d_of_int n = (case round_double (of_int n) of Fin y \<Rightarrow> Inr (Fin y) | _ \<Rightarrow> Inl OverflowError)"

text \<open>Python truthiness (\<open>not v\<close>, \<open>a or b\<close>, \<open>if v\<close>).\<close>

fun truthy :: "json \<Rightarrow> bool" where
  "truthy JNull = False"
| "truthy (JBool b) = b"
| "truthy (JInt n) = (n \<noteq> 0)"
| "truthy (JNum d) = (d \<noteq> Fin 0)"
| "truthy (JStr s) = (s \<noteq> [])"
| "truthy (JList xs) = (xs \<noteq> [])"
| "truthy (JObj kvs) = (kvs \<noteq> [])"

text \<open>\<open>d.get(k)\<close>: the value, or \<open>None\<close>; on anything but a dict an AttributeError.\<close>

fun dict_get :: "json \<Rightarrow> string \<Rightarrow> error + json" where
  "dict_get (JObj kvs) k = Inr (case map_of kvs k of None \<Rightarrow> JNull | Some v \<Rightarrow> v)"
| "dict_get _ k = Inl AttributeError"

subsection \<open>\<open>str.isdigit\<close> and \<open>int(str)\<close>\<close>

definition is_decimal_char :: "char \<Rightarrow> bool" where
  "is_decimal_char c = (48 \<le> (of_char c :: nat) \<and> (of_char c :: nat) \<le> 57)"

text \<open>
  \<open>str.isdigit\<close> accepts, besides the decimal digits, the superscript digits
  U+00B2, U+00B3 and U+00B9; an empty string is not a digit string.
\<close>

definition is_digit_char :: "char \<Rightarrow> bool" where
  "is_digit_char c = (is_decimal_char c \<or> (of_char c :: nat) \<in> {178, 179, 185})"

definition isdigit :: "string \<Rightarrow> bool" where
  "isdigit s = (s \<noteq> [] \<and> list_all is_digit_char s)"

definition digit_val :: "char \<Rightarrow> int" where
  "digit_val c = int (of_char c) - 48"

definition digits_value :: "string \<Rightarrow> int" where
  "digits_value s = foldl (\<lambda>n c. 10 * n + digit_val c) 0 s"

text \<open>The characters \<open>int\<close> skips around a numeral.\<close>

definition is_int_space :: "char \<Rightarrow> bool" where
  "is_int_space c = ((of_char c :: nat) \<in> {9, 10, 11, 12, 13, 32, 133, 160})"

text \<open>
  The body of a numeral: decimal digits, single underscores allowed between two digits.
  \<open>prev_digit\<close> tells whether the character before was a digit.
\<close>

fun int_body_ok :: "bool \<Rightarrow> string \<Rightarrow> bool" where
  "int_body_ok prev_digit [] = prev_digit"
| "int_body_ok prev_digit (c # cs) =
     (if is_decimal_char c then int_body_ok True cs
      else if c = CHR ''_'' \<and> prev_digit then int_body_ok False cs
      else False)"

definition int_of_str :: "string \<Rightarrow> error + int" where
  "int_of_str s =
     (let t = rev (dropWhile is_int_space (rev (dropWhile is_int_space s)));
          neg = (t \<noteq> [] \<and> hd t = CHR ''-'');
          u = (if t \<noteq> [] \<and> (hd t = CHR ''-'' \<or> hd t = CHR ''+'') then tl t else t)
      in if int_body_ok False u
         then Inr ((if neg then -1 else 1) * digits_value (filter is_decimal_char u))
         else Inl ValueError)"

text \<open>\<open>int(v)\<close> on a decoded JSON value.\<close>

fun py_int :: "json \<Rightarrow> error + int" where
  "py_int (JInt n) = Inr n"
| "py_int (JBool b) = Inr (if b then 1 else 0)"
| "py_int (JNum (Fin r)) = Inr (if r < 0 then \<lceil>r\<rceil> else \<lfloor>r\<rfloor>)"
| "py_int (JNum NaN) = Inl ValueError"
| "py_int (JNum d) = Inl OverflowError"
| "py_int (JStr s) = int_of_str s"
| "py_int _ = Inl TypeError"

section \<open>Identifier coercion\<close>

text \<open>
  \<open>_coerce_ids_to_numbers\<close>: the loop appends to \<open>out\<close> one element per input element;
  an exception of \<open>int\<close> leaves the function.
\<close>

fun coerce_id :: "json \<Rightarrow> error + json" where
  "coerce_id (JStr s) =
     (if isdigit s
      then (case int_of_str s of Inl e \<Rightarrow> Inl e | Inr n \<Rightarrow> Inr (JInt n))
      else Inr (JStr s))"
| "coerce_id v = Inr v"

fun coerce_ids_to_numbers :: "json list \<Rightarrow> error + json list" where
  "coerce_ids_to_numbers [] = Inr []"
| "coerce_ids_to_numbers (x # xs) =
     (case coerce_id x of
        Inl e \<Rightarrow> Inl e
      | Inr y \<Rightarrow> (case coerce_ids_to_numbers xs of Inl e \<Rightarrow> Inl e | Inr ys \<Rightarrow> Inr (y # ys)))"

section \<open>Image selection\<close>

text \<open>A photo record is the dict of one photo, as a map from field name to value.\<close>

type_synonym photo = "string \<rightharpoonup> json"

definition url_keys :: "string list" where
  "url_keys = [''url_c'', ''url_l'', ''url_z'', ''url_m'', ''url_h'', ''url_k'', ''url_o'']"

fun first_present :: "photo \<Rightarrow> string list \<Rightarrow> json" where
  "first_present p [] = JNull"
| "first_present p (k # ks) = (case p k of Some v \<Rightarrow> v | None \<Rightarrow> first_present p ks)"

definition pick_best_image_url :: "photo \<Rightarrow> json" where
  "pick_best_image_url p =
     (if p ''media'' = Some (JStr ''video'') then JNull else first_present p url_keys)"

section \<open>Progress bar\<close>

text \<open>\<open>str(i)\<close> of an integer, as the f-string writes it.\<close>

fun str_nat :: "nat \<Rightarrow> string" where
  "str_nat n =
     (if n < 10 then [''0123456789'' ! n]
      else str_nat (n div 10) @ [''0123456789'' ! (n mod 10)])"

declare str_nat.simps [simp del]

definition str_int :: "int \<Rightarrow> string" where
  "str_int i = (if i < 0 then CHR ''-'' # str_nat (nat (- i)) else str_nat (nat i))"

text \<open>
  \<open>progress_bar\<close>. For \<open>n \<noteq> 0\<close> the number of filled cells is \<open>int((i / n) * width)\<close>
  in double-precision floating point, which may also raise OverflowError; that computation
  is the parameter \<open>float_fill\<close>. For \<open>n = 0\<close> the ratio is the integer \<open>0\<close> and
  \<open>int(0 * width) = 0\<close>. A string repeated a negative number of times is empty.
\<close>

definition progress_bar ::
  "(int \<Rightarrow> int \<Rightarrow> int \<Rightarrow> error + int) \<Rightarrow> int \<Rightarrow> int \<Rightarrow> int \<Rightarrow> error + string" where
  "progress_bar float_fill i n width =
     (case (if n = 0 then Inr 0 else float_fill i n width) of
        Inl e \<Rightarrow> Inl e
      | Inr filled \<Rightarrow>
          Inr (''['' @ replicate (nat filled) CHR ''#''
                 @ replicate (nat (width - filled)) CHR ''-''
                 @ ''] '' @ str_int i @ ''/'' @ str_int n))"

section \<open>Configuration and layout\<close>

text \<open>
  The module-level configuration. \<open>os.getenv\<close> without a default gives \<open>None\<close> for an
  unset variable.
\<close>

record config =
  FLICKR_API_KEY :: "string option"
  FLICKR_USER_ID :: "string option"
  FLICKR_PHOTOSETID :: "string option"
  MIRO_TOKEN :: "string option"
  MIRO_BOARD_ID :: "string option"
  IMAGES_PER_ROW :: int
  CELL_W :: double
  CELL_H :: double
  START_X :: double
  START_Y :: double
  OVERLAY_HEIGHT :: double
  OVERLAY_MARGIN :: double
  OVERLAY_COLOR :: string
  TEXT_SIZE :: int
  TEXT_PADDING_X :: double

definition FLICKR_ENDPOINT :: string where
  "FLICKR_ENDPOINT = ''https://www.flickr.com/services/rest/''"

definition MIRO_BASE :: string where
  "MIRO_BASE = ''https://api.miro.com/v2''"

text \<open>
  The tile centre computed in \<open>main\<close> from the 1-based index \<open>idx\<close>
  (\<open>col = (idx - 1) % IMAGES_PER_ROW\<close>, \<open>row = (idx - 1) // IMAGES_PER_ROW\<close>);
  \<open>%\<close> and \<open>//\<close> by zero raise. \<open>col * CELL_W\<close> and \<open>row * CELL_H\<close> turn the integer into a
  float first.
\<close>

definition tile_col :: "config \<Rightarrow> int \<Rightarrow> int" where
  "tile_col cfg idx = (idx - 1) mod IMAGES_PER_ROW cfg"

definition tile_row :: "config \<Rightarrow> int \<Rightarrow> int" where
  "tile_row cfg idx = (idx - 1) div IMAGES_PER_ROW cfg"

definition tile_center :: "config \<Rightarrow> int \<Rightarrow> error + double \<times> double" where
  "tile_center cfg idx =
     (if IMAGES_PER_ROW cfg = 0 then Inl ZeroDivisionError
      else (case d_of_int (tile_col cfg idx) of
              Inl e \<Rightarrow> Inl e
            | Inr col \<Rightarrow>
               (case d_of_int (tile_row cfg idx) of
                  Inl e \<Rightarrow> Inl e
                | Inr row \<Rightarrow>
                    Inr (dadd (START_X cfg) (dmul col (CELL_W cfg)),
                         dadd (START_Y cfg) (dmul row (CELL_H cfg))))))"

section \<open>The network\<close>

text \<open>
  What the program does to the outside world is a trace of events, oldest first: HTTP
  requests and sleeps (\<open>Sleep\<close> carries the number of seconds as the source writes it).
  \<open>GroupCall\<close> is no input or output: it marks an entry into
  \<open>miro_group_items\<close>, so that invocations can be counted. Console output is not modelled.

  A server answers each request from the whole trace up to and including that request,
  so its answer may depend on the payload and on everything sent before.
\<close>

datatype event =
    Get string "(string \<times> json) list"
  | Post string json
  | Sleep real
  | GroupCall string "json list"

text \<open>
  \<open>NoReply\<close>: the request raised (connection failure, timeout). Otherwise the status
  code, the body text and the decoded body (\<open>None\<close> when \<open>r.json()\<close> raises).
\<close>

datatype reply = NoReply | Reply nat string "json option"

type_synonym server = "event list \<Rightarrow> reply"

text \<open>\<open>r.raise_for_status()\<close> raises for the codes 400 to 599.\<close>

definition is_http_error :: "nat \<Rightarrow> bool" where
  "is_http_error code = (400 \<le> code \<and> code < 600)"

section \<open>Board client\<close>

text \<open>
  \<open>_miro_post\<close>: the loop \<open>for attempt in range(tries)\<close>, started at \<open>attempt = 0\<close>.
\<close>

function miro_post_from ::
  "server \<Rightarrow> string \<Rightarrow> json \<Rightarrow> int \<Rightarrow> int \<Rightarrow> event list \<Rightarrow> (error + json) \<times> event list" where
  "miro_post_from srv url payload tries attempt tr =
     (if attempt < tries then
        (let tr1 = tr @ [Post url payload] in
         case srv tr1 of
           NoReply \<Rightarrow> (Inl TransportError, tr1)
         | Reply code txt body \<Rightarrow>
             if code = 429 \<and> attempt + 1 < tries
             then miro_post_from srv url payload tries (attempt + 1) (tr1 @ [Sleep 2])
             else if is_http_error code then (Inl (HTTPError code txt), tr1)
             else (case body of
                     None \<Rightarrow> (Inl JSONDecodeError, tr1)
                   | Some j \<Rightarrow> (Inr j, tr1)))
      else (Inl (RuntimeError ''Failed after retries''), tr))"
  by pat_completeness auto
termination
  by (relation "measure (\<lambda>(srv, url, payload, tries, attempt, tr). nat (tries - attempt))") auto

declare miro_post_from.simps [simp del]

definition miro_post ::
  "server \<Rightarrow> string \<Rightarrow> json \<Rightarrow> int \<Rightarrow> event list \<Rightarrow> (error + json) \<times> event list" where
  "miro_post srv url payload tries tr = miro_post_from srv url payload tries 0 tr"

text \<open>The default \<open>tries=2\<close>, which every caller uses.\<close>

definition default_tries :: int where
  "default_tries = 2"

definition group_payloads :: "json list \<Rightarrow> json list \<Rightarrow> json list" where
  "group_payloads ids_numbers item_ids =
     [JObj [(''data'', JObj [(''items'', JList ids_numbers)])],
      JObj [(''data'', JObj [(''itemIds'', JList item_ids)])],
      JObj [(''itemIds'', JList item_ids)]]"

text \<open>
  The loop over the payloads of \<open>miro_group_items\<close>. Only \<open>requests.HTTPError\<close> is
  caught; \<open>raise last_err\<close> with \<open>last_err = None\<close> is a TypeError.
\<close>

fun try_payloads ::
  "server \<Rightarrow> string \<Rightarrow> json list \<Rightarrow> error option \<Rightarrow> event list \<Rightarrow> (error + json) \<times> event list" where
  "try_payloads srv endpoint [] last_err tr =
     (case last_err of None \<Rightarrow> (Inl TypeError, tr) | Some e \<Rightarrow> (Inl e, tr))"
| "try_payloads srv endpoint (p # ps) last_err tr =
     (case miro_post srv endpoint p default_tries tr of
        (Inr j, tr') \<Rightarrow> (Inr j, tr')
      | (Inl (HTTPError code txt), tr') \<Rightarrow>
          try_payloads srv endpoint ps (Some (HTTPError code txt)) tr'
      | (Inl e, tr') \<Rightarrow> (Inl e, tr'))"

definition groups_endpoint :: "string \<Rightarrow> string" where
  "groups_endpoint board_id = MIRO_BASE @ ''/boards/'' @ board_id @ ''/groups''"

definition miro_group_items ::
  "server \<Rightarrow> string \<Rightarrow> json list \<Rightarrow> event list \<Rightarrow> (error + json) \<times> event list" where
  "miro_group_items srv board_id item_ids tr =
     (let tr0 = tr @ [GroupCall board_id item_ids] in
      case coerce_ids_to_numbers item_ids of
        Inl e \<Rightarrow> (Inl e, tr0)
      | Inr ids_numbers \<Rightarrow>
          try_payloads srv (groups_endpoint board_id)
            (group_payloads ids_numbers item_ids) None tr0)"

text \<open>
  The three item-creating calls. \<open>if width or height\<close> is false for \<open>None\<close> and for \<open>0\<close>.
\<close>

definition opt_truthy :: "double option \<Rightarrow> bool" where
  "opt_truthy w = (case w of None \<Rightarrow> False | Some d \<Rightarrow> d \<noteq> Fin 0)"

definition miro_create_image ::
  "server \<Rightarrow> string \<Rightarrow> json \<Rightarrow> double \<Rightarrow> double \<Rightarrow> double option \<Rightarrow> double option \<Rightarrow> event list
     \<Rightarrow> (error + json) \<times> event list" where
  "miro_create_image srv board_id image_url x y width height tr =
     miro_post srv (MIRO_BASE @ ''/boards/'' @ board_id @ ''/images'')
       (JObj ([(''data'', JObj [(''url'', image_url)]),
               (''position'', JObj [(''x'', JNum x), (''y'', JNum y)])]
              @ (if opt_truthy width \<or> opt_truthy height
                 then [(''geometry'',
                        JObj ((case width of None \<Rightarrow> [] | Some w \<Rightarrow> [(''width'', JNum w)])
                            @ (case height of None \<Rightarrow> [] | Some h \<Rightarrow> [(''height'', JNum h)])))]
                 else [])))
       default_tries tr"

definition miro_create_shape_rect ::
  "server \<Rightarrow> string \<Rightarrow> double \<Rightarrow> double \<Rightarrow> double \<Rightarrow> double \<Rightarrow> string \<Rightarrow> event list
     \<Rightarrow> (error + json) \<times> event list" where
  "miro_create_shape_rect srv board_id x y width height fill tr =
     miro_post srv (MIRO_BASE @ ''/boards/'' @ board_id @ ''/shapes'')
       (JObj [(''data'', JObj [(''shape'', JStr ''rectangle'')]),
              (''position'', JObj [(''x'', JNum x), (''y'', JNum y)]),
              (''geometry'', JObj [(''width'', JNum width), (''height'', JNum height)]),
              (''style'', JObj [(''fillColor'', JStr fill)])])
       default_tries tr"

definition miro_create_text ::
  "server \<Rightarrow> string \<Rightarrow> string \<Rightarrow> double \<Rightarrow> double \<Rightarrow> double \<Rightarrow> int \<Rightarrow> string \<Rightarrow> event list
     \<Rightarrow> (error + json) \<times> event list" where
  "miro_create_text srv board_id content x y width font_size align tr =
     miro_post srv (MIRO_BASE @ ''/boards/'' @ board_id @ ''/texts'')
       (JObj [(''data'', JObj [(''content'', JStr content)]),
              (''position'', JObj [(''x'', JNum x), (''y'', JNum y)]),
              (''geometry'', JObj [(''width'', JNum width)]),
              (''style'', JObj [(''textAlign'', JStr align), (''fontSize'', JInt font_size)])])
       default_tries tr"

section \<open>Album reader\<close>

definition flickr_params :: "json \<Rightarrow> json \<Rightarrow> json \<Rightarrow> int \<Rightarrow> (string \<times> json) list" where
  "flickr_params photoset_id user_id api_key page =
     [(''method'', JStr ''flickr.photosets.getPhotos''),
      (''api_key'', api_key),
      (''user_id'', user_id),
      (''photoset_id'', photoset_id),
      (''extras'', JStr ''media,path_alias,original_format,url_o,url_k,url_h,url_l,url_c,url_z,url_m''),
      (''per_page'', JInt 500),
      (''page'', JInt page),
      (''format'', JStr ''json''),
      (''nojsoncallback'', JInt 1)]"

text \<open>\<open>"photo" in photoset\<close>: a key of a dict, a substring of a string, an element of a list.\<close>

fun is_infix :: "string \<Rightarrow> string \<Rightarrow> bool" where
  "is_infix xs [] = (xs = [])"
| "is_infix xs (y # ys) = (take (length xs) (y # ys) = xs \<or> is_infix xs ys)"

fun contains_photo :: "json \<Rightarrow> error + bool" where
  "contains_photo (JObj kvs) = Inr (map_of kvs ''photo'' \<noteq> None)"
| "contains_photo (JStr s) = Inr (is_infix ''photo'' s)"
| "contains_photo (JList xs) = Inr (JStr ''photo'' \<in> set xs)"
| "contains_photo _ = Inl TypeError"

text \<open>\<open>photoset["photo"]\<close>.\<close>

fun photo_field :: "json \<Rightarrow> error + json" where
  "photo_field (JObj kvs) = (case map_of kvs ''photo'' of None \<Rightarrow> Inl KeyError | Some v \<Rightarrow> Inr v)"
| "photo_field _ = Inl TypeError"

text \<open>What \<open>for p in v\<close> runs over.\<close>

fun iterate :: "json \<Rightarrow> error + json list" where
  "iterate (JList xs) = Inr xs"
| "iterate (JStr s) = Inr (map (\<lambda>c. JStr [c]) s)"
| "iterate (JObj kvs) = Inr (map (\<lambda>kv. JStr (fst kv)) kvs)"
| "iterate _ = Inl TypeError"

text \<open>\<open>int(photoset.get("pages", 1))\<close>.\<close>

definition total_pages :: "json \<Rightarrow> error + int" where
  "total_pages photoset =
     (case photoset of
        JObj kvs \<Rightarrow> py_int (case map_of kvs ''pages'' of None \<Rightarrow> JInt 1 | Some v \<Rightarrow> v)
      | _ \<Rightarrow> Inl AttributeError)"

text \<open>
  One pass through the body of the \<open>while True\<close> loop, after the request: the records
  yielded in this pass, and either the end of the generator (\<open>Stop\<close>, normally or with
  an exception) or another pass (\<open>More\<close>).
\<close>

datatype page_result = Stop "error + unit" "json list" | More "json list"

definition read_page :: "reply \<Rightarrow> int \<Rightarrow> page_result" where
  "read_page r page =
     (case r of
        NoReply \<Rightarrow> Stop (Inl TransportError) []
      | Reply code txt body \<Rightarrow>
          if is_http_error code then Stop (Inl (HTTPError code txt)) []
          else (case body of
             None \<Rightarrow> Stop (Inl JSONDecodeError) []
           | Some data \<Rightarrow>
              (case dict_get data ''photoset'' of
                 Inl e \<Rightarrow> Stop (Inl e) []
               | Inr photoset \<Rightarrow>
                  if \<not> truthy photoset then Stop (Inr ()) []
                  else (case contains_photo photoset of
                     Inl e \<Rightarrow> Stop (Inl e) []
                   | Inr False \<Rightarrow> Stop (Inr ()) []
                   | Inr True \<Rightarrow>
                      (case photo_field photoset of
                         Inl e \<Rightarrow> Stop (Inl e) []
                       | Inr v \<Rightarrow>
                          (case iterate v of
                             Inl e \<Rightarrow> Stop (Inl e) []
                           | Inr items \<Rightarrow>
                              (case total_pages photoset of
                                 Inl e \<Rightarrow> Stop (Inl e) items
                               | Inr n \<Rightarrow> if page \<ge> n then Stop (Inr ()) items
                                          else More items)))))))"

text \<open>
  The generator, consumed to its end as \<open>list(...)\<close> does: the outcome, the records
  yielded and the trace. The server may report more pages for ever, so the loop need
  not end: then the value is \<open>None\<close>.
\<close>

partial_function (option) photos_loop ::
  "server \<Rightarrow> json \<Rightarrow> json \<Rightarrow> json \<Rightarrow> int \<Rightarrow> json list \<Rightarrow> event list
     \<Rightarrow> ((error + unit) \<times> json list \<times> event list) option" where
  "photos_loop srv photoset_id user_id api_key page acc tr =
     (case read_page
             (srv (tr @ [Get FLICKR_ENDPOINT (flickr_params photoset_id user_id api_key page)]))
             page of
        Stop r items \<Rightarrow>
          Some (r, acc @ items,
                tr @ [Get FLICKR_ENDPOINT (flickr_params photoset_id user_id api_key page)])
      | More items \<Rightarrow>
          photos_loop srv photoset_id user_id api_key (page + 1) (acc @ items)
            (tr @ [Get FLICKR_ENDPOINT (flickr_params photoset_id user_id api_key page)]))"

definition flickr_photos_in_photoset ::
  "server \<Rightarrow> json \<Rightarrow> json \<Rightarrow> json \<Rightarrow> event list
     \<Rightarrow> ((error + unit) \<times> json list \<times> event list) option" where
  "flickr_photos_in_photoset srv photoset_id user_id api_key tr =
     photos_loop srv photoset_id user_id api_key 1 [] tr"

section \<open>Pipeline driver\<close>

text \<open>The characters \<open>str.strip\<close> removes.\<close>

definition is_space :: "char \<Rightarrow> bool" where
  "is_space c = ((of_char c :: nat) \<in> {9, 10, 11, 12, 13, 28, 29, 30, 31, 32, 133, 160})"

definition strip :: "string \<Rightarrow> string" where
  "strip s = rev (dropWhile is_space (rev (dropWhile is_space s)))"

text \<open>
  An f-string field. \<open>str\<close> of a string, an integer and \<open>None\<close> is written out; for the
  other values (floats, lists, dicts, booleans) it is the parameter \<open>to_str\<close>.
\<close>

definition fmt :: "(json \<Rightarrow> string) \<Rightarrow> json \<Rightarrow> string" where
  "fmt to_str v =
     (case v of JStr s \<Rightarrow> s | JInt n \<Rightarrow> str_int n | JNull \<Rightarrow> ''None'' | _ \<Rightarrow> to_str v)"

text \<open>A configuration value read where a string is expected: unset is \<open>None\<close>.\<close>

definition env_value :: "string option \<Rightarrow> json" where
  "env_value v = (case v of None \<Rightarrow> JNull | Some s \<Rightarrow> JStr s)"

text \<open>\<open>build_flickr_page_url\<close>; \<open>p['id']\<close> raises KeyError when the field is missing.\<close>

definition build_flickr_page_url ::
  "(json \<Rightarrow> string) \<Rightarrow> (string \<times> json) list \<Rightarrow> json \<Rightarrow> error + string" where
  "build_flickr_page_url to_str p fallback_user_id =
     (let alias = (case map_of p ''path_alias'' of None \<Rightarrow> JNull | Some v \<Rightarrow> v);
          user = (if truthy alias then alias else fallback_user_id)
      in case map_of p ''id'' of
           None \<Rightarrow> Inl KeyError
         | Some i \<Rightarrow> Inr (''https://www.flickr.com/photos/'' @ fmt to_str user @ ''/'' @ fmt to_str i))"

text \<open>
  \<open>(p.get("title") or "").strip()\<close>: a truthy title that is no string has no \<open>strip\<close>.
\<close>

definition photo_title :: "(string \<times> json) list \<Rightarrow> error + string" where
  "photo_title p =
     (case map_of p ''title'' of
        None \<Rightarrow> Inr []
      | Some t \<Rightarrow> if \<not> truthy t then Inr []
                  else (case t of JStr s \<Rightarrow> Inr (strip s) | _ \<Rightarrow> Inl AttributeError))"

text \<open>
  The separator of title and page URL in the label: space, em dash, space. The em dash
  U+2014 is no code point below 256 and is written as its three UTF-8 bytes.
\<close>

definition label_sep :: string where
  "label_sep = [CHR '' '', CHR 0xE2, CHR 0x80, CHR 0x94, CHR '' '']"

text \<open>
  The body of one \<open>try\<close> block of \<open>main\<close> after the call has returned or raised:
  \<open>item.get("id")\<close> is appended unless it is \<open>None\<close>. \<open>Inl\<close> is the exception that
  leaves the block; \<open>requests.HTTPError\<close> among them is the one the \<open>except\<close> catches.
\<close>

definition collect_id :: "json list \<Rightarrow> json \<Rightarrow> error + json list" where
  "collect_id created_ids item =
     (case dict_get item ''id'' of
        Inl e \<Rightarrow> Inl e
      | Inr v \<Rightarrow> Inr (if v = JNull then created_ids else created_ids @ [v]))"

text \<open>
  How one pass of the \<open>for idx, p in enumerate(photos, start=1)\<close> loop ends: by the
  \<open>continue\<close> for a record without usable URL, by the \<open>continue\<close> after a failed image,
  at its end (\<open>done += 1\<close>), or by an exception that nothing catches.
\<close>

datatype outcome = Skipped | ImageFailed | Placed | Crashed error

text \<open>\<open>MIRO_BOARD_ID\<close> as the f-strings of the endpoints write it.\<close>

definition board_id_str :: "config \<Rightarrow> string" where
  "board_id_str cfg = (case MIRO_BOARD_ID cfg of None \<Rightarrow> ''None'' | Some s \<Rightarrow> s)"

text \<open>Stage 4 and the end of the pass.\<close>

definition group_stage ::
  "config \<Rightarrow> server \<Rightarrow> json list \<Rightarrow> event list \<Rightarrow> outcome \<times> json list \<times> event list" where
  "group_stage cfg srv created_ids tr =
     (let group_ids = filter (\<lambda>i. i \<noteq> JNull) created_ids in
      if length group_ids \<ge> 2 then
        (case miro_group_items srv (board_id_str cfg) group_ids tr of
           (Inr g, tr') \<Rightarrow> (Placed, created_ids, tr' @ [Sleep (12 / 100)])
         | (Inl (HTTPError code txt), tr') \<Rightarrow> (Placed, created_ids, tr' @ [Sleep (12 / 100)])
         | (Inl e, tr') \<Rightarrow> (Crashed e, created_ids, tr'))
      else (Placed, created_ids, tr @ [Sleep (12 / 100)]))"

text \<open>Stage 3, the text label.\<close>

definition text_stage ::
  "config \<Rightarrow> server \<Rightarrow> (json \<Rightarrow> string) \<Rightarrow> (string \<times> json) list \<Rightarrow> string \<Rightarrow> double \<Rightarrow> double
     \<Rightarrow> json list \<Rightarrow> event list \<Rightarrow> outcome \<times> json list \<times> event list" where
  "text_stage cfg srv to_str p title x_center overlay_y created_ids tr =
     (case build_flickr_page_url to_str p (env_value (FLICKR_USER_ID cfg)) of
        Inl e \<Rightarrow> (Crashed e, created_ids, tr)
      | Inr flickr_page \<Rightarrow>
         (case miro_create_text srv (board_id_str cfg)
                 (if title \<noteq> [] then title @ label_sep @ flickr_page else flickr_page)
                 x_center overlay_y (dsub (dsub (CELL_W cfg) (Fin 24)) (dmul (Fin 2) (TEXT_PADDING_X cfg)))
                 (TEXT_SIZE cfg) ''center'' tr of
            (Inl (HTTPError code txt), tr') \<Rightarrow> group_stage cfg srv created_ids tr'
          | (Inl e, tr') \<Rightarrow> (Crashed e, created_ids, tr')
          | (Inr item, tr') \<Rightarrow>
             (case collect_id created_ids item of
                Inl e \<Rightarrow> (Crashed e, created_ids, tr')
              | Inr ids \<Rightarrow> group_stage cfg srv ids tr')))"

text \<open>Stage 2, the overlay banner.\<close>

definition overlay_stage ::
  "config \<Rightarrow> server \<Rightarrow> (json \<Rightarrow> string) \<Rightarrow> (string \<times> json) list \<Rightarrow> string \<Rightarrow> double \<Rightarrow> double
     \<Rightarrow> json list \<Rightarrow> event list \<Rightarrow> outcome \<times> json list \<times> event list" where
  "overlay_stage cfg srv to_str p title x_center y_center created_ids tr =
     (let overlay_y = dsub (dsub (dadd y_center (dhalf (CELL_H cfg))) (dhalf (OVERLAY_HEIGHT cfg))) (Fin 4) in
      case miro_create_shape_rect srv (board_id_str cfg)
             x_center overlay_y (dsub (CELL_W cfg) (Fin 24)) (OVERLAY_HEIGHT cfg) (OVERLAY_COLOR cfg) tr of
        (Inl (HTTPError code txt), tr') \<Rightarrow>
          text_stage cfg srv to_str p title x_center overlay_y created_ids tr'
      | (Inl e, tr') \<Rightarrow> (Crashed e, created_ids, tr')
      | (Inr item, tr') \<Rightarrow>
         (case collect_id created_ids item of
            Inl e \<Rightarrow> (Crashed e, created_ids, tr')
          | Inr ids \<Rightarrow> text_stage cfg srv to_str p title x_center overlay_y ids tr'))"

text \<open>
  One pass of the loop of \<open>main\<close> for the record \<open>p\<close> at index \<open>idx\<close>: the way it ends,
  the list \<open>created_ids\<close> at that moment, and the trace.
\<close>

definition process_photo ::
  "config \<Rightarrow> server \<Rightarrow> (json \<Rightarrow> string) \<Rightarrow> int \<Rightarrow> json \<Rightarrow> event list
     \<Rightarrow> outcome \<times> json list \<times> event list" where
  "process_photo cfg srv to_str idx rec tr =
     (case rec of
        JObj p \<Rightarrow>
         (case photo_title p of
            Inl e \<Rightarrow> (Crashed e, [], tr)
          | Inr title \<Rightarrow>
             (let img_url = pick_best_image_url (map_of p) in
              if \<not> truthy img_url then (Skipped, [], tr)
              else (case tile_center cfg idx of
                 Inl e \<Rightarrow> (Crashed e, [], tr)
               | Inr (x_center, y_center) \<Rightarrow>
                  (case miro_create_image srv (board_id_str cfg)
                          img_url x_center
                          (dsub (dsub y_center (dhalf (OVERLAY_HEIGHT cfg))) (dhalf (OVERLAY_MARGIN cfg)))
                          (Some (dsub (CELL_W cfg) (Fin 24))) None tr of
                     (Inl (HTTPError code txt), tr') \<Rightarrow> (ImageFailed, [], tr')
                   | (Inl e, tr') \<Rightarrow> (Crashed e, [], tr')
                   | (Inr item, tr') \<Rightarrow>
                      (case collect_id [] item of
                         Inl e \<Rightarrow> (Crashed e, [], tr')
                       | Inr ids \<Rightarrow>
                           overlay_stage cfg srv to_str p title x_center y_center ids tr')))))
      | _ \<Rightarrow> (Crashed AttributeError, [], tr))"

text \<open>The loop over the photos, with the counter \<open>done\<close>.\<close>

fun process_all ::
  "config \<Rightarrow> server \<Rightarrow> (json \<Rightarrow> string) \<Rightarrow> int \<Rightarrow> json list \<Rightarrow> nat \<Rightarrow> event list
     \<Rightarrow> (error + nat) \<times> event list" where
  "process_all cfg srv to_str idx [] done tr = (Inr done, tr)"
| "process_all cfg srv to_str idx (p # ps) done tr =
     (case process_photo cfg srv to_str idx p tr of
        (Crashed e, ids, tr') \<Rightarrow> (Inl e, tr')
      | (Placed, ids, tr') \<Rightarrow> process_all cfg srv to_str (idx + 1) ps (Suc done) tr'
      | (other, ids, tr') \<Rightarrow> process_all cfg srv to_str (idx + 1) ps done tr')"

text \<open>\<open>sep.join(xs)\<close>.\<close>

fun join :: "string \<Rightarrow> string list \<Rightarrow> string" where
  "join sep [] = []"
| "join sep [x] = x"
| "join sep (x # y # ys) = x @ sep @ join sep (y # ys)"

text \<open>\<open>not v\<close> for a configuration value: unset or empty.\<close>

definition unset :: "string option \<Rightarrow> bool" where
  "unset v = (case v of None \<Rightarrow> True | Some s \<Rightarrow> s = [])"

definition required :: "config \<Rightarrow> (string \<times> string option) list" where
  "required cfg =
     [(''FLICKR_API_KEY'', FLICKR_API_KEY cfg),
      (''FLICKR_USER_ID'', FLICKR_USER_ID cfg),
      (''FLICKR_PHOTOSET_ID'', FLICKR_PHOTOSETID cfg),
      (''MIRO_TOKEN'', MIRO_TOKEN cfg),
      (''MIRO_BOARD_ID'', MIRO_BOARD_ID cfg)]"

definition missing :: "config \<Rightarrow> string list" where
  "missing cfg = map fst (filter (\<lambda>kv. unset (snd kv)) (required cfg))"

text \<open>
  \<open>main\<close>, started on the trace \<open>tr\<close>: the exception that ends it or the number of tiles
  placed, and the trace; \<open>None\<close> when the album reader never ends.
\<close>

definition main ::
  "config \<Rightarrow> server \<Rightarrow> (json \<Rightarrow> string) \<Rightarrow> event list \<Rightarrow> ((error + nat) \<times> event list) option" where
  "main cfg srv to_str tr =
     (if missing cfg \<noteq> []
      then Some (Inl (SystemExit (''Missing required env vars: '' @ join '', '' (missing cfg))), tr)
      else (case flickr_photos_in_photoset srv (env_value (FLICKR_PHOTOSETID cfg))
                   (env_value (FLICKR_USER_ID cfg)) (env_value (FLICKR_API_KEY cfg)) tr of
              None \<Rightarrow> None
            | Some (Inl e, photos, tr') \<Rightarrow> Some (Inl e, tr')
            | Some (Inr u, photos, tr') \<Rightarrow>
                if photos = [] then Some (Inr 0, tr')
                else Some (process_all cfg srv to_str 1 photos 0 tr')))"

section \<open>Observations and test fixtures\<close>

text \<open>The number of entries into \<open>miro_group_items\<close> recorded in a trace.\<close>

fun is_group_call :: "event \<Rightarrow> bool" where
  "is_group_call (GroupCall b ids) = True"
| "is_group_call _ = False"

definition group_calls :: "event list \<Rightarrow> nat" where
  "group_calls tr = length (filter is_group_call tr)"

fun is_post :: "event \<Rightarrow> bool" where
  "is_post (Post u p) = True"
| "is_post _ = False"

text \<open>An exception that \<open>except requests.HTTPError\<close> catches.\<close>

fun is_http_failure :: "error + 'a \<Rightarrow> bool" where
  "is_http_failure (Inl (HTTPError code txt)) = True"
| "is_http_failure _ = False"

text \<open>
  What the docstring of \<open>_coerce_ids_to_numbers\<close> asks for one element: a digit string
  becomes its number, anything else stays.
\<close>

definition coerced :: "json \<Rightarrow> json" where
  "coerced v = (case v of JStr s \<Rightarrow> if isdigit s then JInt (digits_value s) else JStr s | _ \<Rightarrow> v)"

text \<open>
  What \<open>_miro_post\<close> adds to the trace when it posts \<open>k + 1\<close> times: \<open>k\<close> requests each
  followed by the sleep of 2, and the last request.
\<close>

definition retry_trace :: "string \<Rightarrow> json \<Rightarrow> nat \<Rightarrow> event list" where
  "retry_trace u p k = concat (replicate k [Post u p, Sleep 2]) @ [Post u p]"


text \<open>
  What a reply of the listing API says, read off the reply itself. The reported number of
  pages is the \<open>pages\<close> field of the container: an integer, or the decimal numeral of a
  natural number as a string, and \<open>1\<close> when the field is missing.
\<close>

definition reports :: "(string \<times> json) list \<Rightarrow> int \<Rightarrow> bool" where
  "reports ps n =
     (case map_of ps ''pages'' of
        None \<Rightarrow> n = 1
      | Some (JInt m) \<Rightarrow> n = m
      | Some (JStr s) \<Rightarrow> 0 \<le> n \<and> s = str_nat (nat n)
      | Some other \<Rightarrow> False)"

text \<open>
  A successful reply (status outside 400..599, a JSON object) whose \<open>photoset\<close> container
  holds the photo array \<open>recs\<close> and reports \<open>n\<close> pages.
\<close>

definition shows_page :: "reply \<Rightarrow> json list \<Rightarrow> int \<Rightarrow> bool" where
  "shows_page r recs n =
     (case r of
        Reply code msg (Some (JObj data)) \<Rightarrow>
          \<not> (400 \<le> code \<and> code < 600) \<and>
          (case map_of data ''photoset'' of
             Some (JObj ps) \<Rightarrow> map_of ps ''photo'' = Some (JList recs) \<and> reports ps n
           | _ \<Rightarrow> False)
      | _ \<Rightarrow> False)"

text \<open>
  A successful reply without the container (missing or \<open>null\<close>), or whose container has
  no photo array.
\<close>

definition lacks_container :: "reply \<Rightarrow> bool" where
  "lacks_container r =
     (case r of
        Reply code msg (Some (JObj data)) \<Rightarrow>
          \<not> (400 \<le> code \<and> code < 600) \<and>
          (case map_of data ''photoset'' of
             None \<Rightarrow> True
           | Some JNull \<Rightarrow> True
           | Some (JObj ps) \<Rightarrow> map_of ps ''photo'' = None
           | _ \<Rightarrow> False)
      | _ \<Rightarrow> False)"

text \<open>
  The same as computed by the reader, used in the proofs: no container, or a page of
  records with the total that \<open>total_pages\<close> finds.
\<close>

datatype listing = NoContainer | Page "json list" int

definition listing_of :: "reply \<Rightarrow> listing option" where
  "listing_of r =
     (case r of
        NoReply \<Rightarrow> None
      | Reply code msg body \<Rightarrow>
          if is_http_error code then None
          else (case body of
             Some (JObj data) \<Rightarrow>
               (case map_of data ''photoset'' of
                  None \<Rightarrow> Some NoContainer
                | Some (JObj ps) \<Rightarrow>
                    (case map_of ps ''photo'' of
                       None \<Rightarrow> Some NoContainer
                     | Some (JList recs) \<Rightarrow>
                         (case total_pages (JObj ps) of
                            Inr n \<Rightarrow> Some (Page recs n)
                          | Inl e \<Rightarrow> None)
                     | Some other \<Rightarrow> None)
                | Some v \<Rightarrow> if truthy v then None else Some NoContainer)
           | _ \<Rightarrow> None))"

text \<open>At page \<open>page\<close>: the reply holds records and reports more pages than \<open>page\<close>.\<close>

definition goes_on :: "reply \<Rightarrow> int \<Rightarrow> bool" where
  "goes_on r page = (case listing_of r of Some (Page recs n) \<Rightarrow> page < n | _ \<Rightarrow> False)"

text \<open>
  At page \<open>page\<close>: the reply lacks the container, or \<open>page\<close> has reached the reported total.
\<close>

definition stops :: "reply \<Rightarrow> int \<Rightarrow> bool" where
  "stops r page =
     (case listing_of r of
        Some NoContainer \<Rightarrow> True
      | Some (Page recs n) \<Rightarrow> page \<ge> n
      | None \<Rightarrow> False)"

definition records_of :: "reply \<Rightarrow> json list" where
  "records_of r = (case listing_of r of Some (Page recs n) \<Rightarrow> recs | _ \<Rightarrow> [])"

text \<open>The request for one page, and the requests for the pages \<open>1\<close> to \<open>k\<close>.\<close>

definition page_request :: "json \<Rightarrow> json \<Rightarrow> json \<Rightarrow> int \<Rightarrow> event" where
  "page_request photoset_id user_id api_key page =
     Get FLICKR_ENDPOINT (flickr_params photoset_id user_id api_key page)"

definition page_requests :: "json \<Rightarrow> json \<Rightarrow> json \<Rightarrow> int \<Rightarrow> event list" where
  "page_requests photoset_id user_id api_key k =
     map (page_request photoset_id user_id api_key) [1..k]"

text \<open>The configuration when only the five required variables are set.\<close>

definition default_config ::
  "string option \<Rightarrow> string option \<Rightarrow> string option \<Rightarrow> string option \<Rightarrow> string option \<Rightarrow> config" where
  "default_config api_key user_id photoset_id token board_id =
     \<lparr>FLICKR_API_KEY = api_key, FLICKR_USER_ID = user_id, FLICKR_PHOTOSETID = photoset_id,
      MIRO_TOKEN = token, MIRO_BOARD_ID = board_id,
      IMAGES_PER_ROW = 6, CELL_W = Fin 440, CELL_H = Fin 420, START_X = Fin 0, START_Y = Fin 0,
      OVERLAY_HEIGHT = Fin 60, OVERLAY_MARGIN = Fin 8, OVERLAY_COLOR = ''#FFFFFF'',
      TEXT_SIZE = 18, TEXT_PADDING_X = Fin 8\<rparr>"


text \<open>A board that answers every request with the rate-limit status.\<close>

definition always_rate_limited :: server where
  "always_rate_limited tr = Reply 429 ''Too Many Requests'' None"

text \<open>
  A board that always answers with the rate-limit status, with a body that tells the
  first answer from the later ones.
\<close>

definition rate_limited_twice :: server where
  "rate_limited_twice tr =
     (if length (filter is_post tr) \<le> 1 then Reply 429 ''first'' None
      else Reply 429 ''last'' None)"

text \<open>A board that answers the first POST with the rate-limit status and then creates.\<close>

definition rate_limited_once :: server where
  "rate_limited_once tr =
     (if length (filter is_post tr) \<le> 1 then Reply 429 ''Too Many Requests'' None
      else Reply 201 [] (Some (JObj [(''id'', JStr ''3458764513820541'')])))"

text \<open>A board that creates every item.\<close>

definition always_created :: server where
  "always_created tr = Reply 201 [] (Some (JObj [(''id'', JStr ''3458764513820541'')]))"

text \<open>
  A board whose connection fails for a payload with a nested \<open>items\<close> key and that
  accepts every other request.
\<close>

definition is_items_shape :: "json \<Rightarrow> bool" where
  "is_items_shape payload =
     (case payload of
        JObj kvs \<Rightarrow> (case map_of kvs ''data'' of
                       Some (JObj d) \<Rightarrow> map_of d ''items'' \<noteq> None
                     | _ \<Rightarrow> False)
      | _ \<Rightarrow> False)"

definition drops_items_shape :: server where
  "drops_items_shape tr =
     (case last tr of
        Post u payload \<Rightarrow>
          if is_items_shape payload then NoReply
          else Reply 201 [] (Some (JObj [(''id'', JStr ''3458764513820999'')]))
      | _ \<Rightarrow> NoReply)"




text \<open>
  The listing of an album of 510 photos: page 1 holds 500 records, every other page 10,
  and each reply reports 2 pages.
\<close>

definition mock_record :: json where
  "mock_record = JObj [(''id'', JStr ''52345678901''), (''url_c'', JStr ''https://live.staticflickr.com/c.jpg'')]"

definition mock_page :: "nat \<Rightarrow> reply" where
  "mock_page n =
     Reply 200 [] (Some (JObj [(''photoset'',
        JObj [(''photo'', JList (replicate n mock_record)), (''pages'', JInt 2)])]))"

definition mock_listing :: server where
  "mock_listing tr =
     (case last tr of
        Get u params \<Rightarrow> if map_of params ''page'' = Some (JInt 1) then mock_page 500 else mock_page 10
      | _ \<Rightarrow> NoReply)"

text \<open>
  The listing of an album of 5 photos on 3 pages (2, 2 and 1 records), the number of
  pages reported as the string \<open>"3"\<close>.
\<close>

definition mock_listing3 :: server where
  "mock_listing3 tr =
     (case last tr of
        Get u params \<Rightarrow>
          Reply 200 [] (Some (JObj [(''photoset'',
            JObj [(''photo'', JList (replicate (if map_of params ''page'' = Some (JInt 3) then 1 else 2)
                                       mock_record)),
                  (''pages'', JStr ''3'')])]))
      | _ \<Rightarrow> NoReply)"

section \<open>Image selection: the preference order\<close>

lemma first_present_at:
  "i < length ks \<Longrightarrow> \<forall>j<i. p (ks ! j) = None \<Longrightarrow> p (ks ! i) = Some v \<Longrightarrow> first_present p ks = v"
proof (induction ks arbitrary: i)
  case Nil
  then show ?case by simp
next
  case (Cons k ks)
  show ?case
  proof (cases i)
    case 0
    with Cons.prems show ?thesis by simp
  next
    case (Suc i')
    from Cons.prems Suc have "p k = None" by auto
    moreover have "\<forall>j<i'. p (ks ! j) = None"
    proof (intro allI impI)
      fix j assume "j < i'"
      then have "Suc j < i" using Suc by simp
      with Cons.prems(2) have "p ((k # ks) ! Suc j) = None" by blast
      then show "p (ks ! j) = None" by simp
    qed
    then have "first_present p ks = v"
      using Cons.IH[of i'] Cons.prems Suc by auto
    ultimately show ?thesis by simp
  qed
qed

lemma first_present_none:
  "\<forall>k \<in> set ks. p k = None \<Longrightarrow> first_present p ks = JNull"
  by (induction ks) auto

text \<open>
  Claim C4. A record whose media kind is \<open>video\<close> gives \<open>None\<close> whatever URL fields it
  has. Any other record gives the value of the first field present in the order
  \<open>url_c, url_l, url_z, url_m, url_h, url_k, url_o\<close>, and \<open>None\<close> when none of the seven
  is present; so \<open>url_c\<close> wins whenever it is present, also over \<open>url_o\<close>.
\<close>

theorem pick_best_image_url_spec:
  "(p ''media'' = Some (JStr ''video'') \<longrightarrow> pick_best_image_url p = JNull) \<and>
   (p ''media'' \<noteq> Some (JStr ''video'') \<longrightarrow>
      (\<forall>i < length url_keys. (\<forall>j<i. p (url_keys ! j) = None) \<longrightarrow> p (url_keys ! i) = Some v
          \<longrightarrow> pick_best_image_url p = v) \<and>
      ((\<forall>k \<in> set url_keys. p k = None) \<longrightarrow> pick_best_image_url p = JNull) \<and>
      (p ''url_c'' = Some c \<longrightarrow> pick_best_image_url p = c)) \<and>
   url_keys = [''url_c'', ''url_l'', ''url_z'', ''url_m'', ''url_h'', ''url_k'', ''url_o'']"
proof (intro conjI impI allI)
  show "url_keys = [''url_c'', ''url_l'', ''url_z'', ''url_m'', ''url_h'', ''url_k'', ''url_o'']"
    by (simp add: url_keys_def)
next
  assume "p ''media'' = Some (JStr ''video'')"
  then show "pick_best_image_url p = JNull" by (simp add: pick_best_image_url_def)
next
  fix i
  assume "p ''media'' \<noteq> Some (JStr ''video'')" "i < length url_keys"
    "\<forall>j<i. p (url_keys ! j) = None" "p (url_keys ! i) = Some v"
  then show "pick_best_image_url p = v"
    using first_present_at[of i url_keys p v] by (simp add: pick_best_image_url_def)
next
  assume "p ''media'' \<noteq> Some (JStr ''video'')" "\<forall>k \<in> set url_keys. p k = None"
  then show "pick_best_image_url p = JNull"
    using first_present_none[of url_keys p] by (simp add: pick_best_image_url_def)
next
  assume "p ''media'' \<noteq> Some (JStr ''video'')" "p ''url_c'' = Some c"
  then show "pick_best_image_url p = c"
    by (simp add: pick_best_image_url_def url_keys_def)
qed

theorem pick_best_image_url_witness:
  "pick_best_image_url [''url_o'' \<mapsto> JStr ''o'', ''url_c'' \<mapsto> JStr ''c''] = JStr ''c'' \<and>
   pick_best_image_url [''url_c'' \<mapsto> JStr ''c'', ''media'' \<mapsto> JStr ''video''] = JNull"
proof -
  let ?p = "[''url_o'' \<mapsto> JStr ''o'', ''url_c'' \<mapsto> JStr ''c'']"
  let ?q = "[''url_c'' \<mapsto> JStr ''c'', ''media'' \<mapsto> JStr ''video'']"
  have m: "?p ''media'' \<noteq> Some (JStr ''video'')" by simp
  have c: "?p ''url_c'' = Some (JStr ''c'')" by simp
  have v: "?q ''media'' = Some (JStr ''video'')" by simp
  from pick_best_image_url_spec [of ?p "JStr ''c''" "JStr ''c''"] m c
  have 1: "pick_best_image_url ?p = JStr ''c''" by blast
  from pick_best_image_url_spec [of ?q "JStr ''c''" "JStr ''c''"] v
  have 2: "pick_best_image_url ?q = JNull" by blast
  from 1 2 show ?thesis by blast
qed

section \<open>Progress bar with an empty total\<close>

text \<open>
  Claim C10. With a total of \<open>0\<close> no division takes place: for every index \<open>i\<close> and
  width \<open>w\<close> the function returns the bar with no filled cell and \<open>w\<close> unfilled ones
  (none for a negative \<open>w\<close>), followed by \<open>i/0\<close>.
\<close>

theorem progress_bar_zero_total:
  "progress_bar float_fill i 0 w
     = Inr (''['' @ replicate (nat w) CHR ''-'' @ ''] '' @ str_int i @ ''/0'')"
  by (simp add: progress_bar_def str_int_def str_nat.simps[of 0])

section \<open>Layout: one row down\<close>






lemma round_double_zero [simp]: "round_double 0 = Fin 0"
  by (simp add: round_double_def)












section \<open>The retry wrapper\<close>

lemma miro_post_success:
  assumes "srv (tr @ [Post u p]) = Reply code txt (Some j)" "\<not> is_http_error code" "0 < tries"
  shows "miro_post srv u p tries tr = (Inr j, tr @ [Post u p])"
proof -
  from assms(2) have "code \<noteq> 429" by (auto simp: is_http_error_def)
  with assms show ?thesis
    by (simp add: miro_post_def miro_post_from.simps[of srv u p tries 0 tr])
qed

text \<open>
  Claim C8. With at least two attempts allowed (the default is 2), when the first
  request is answered with status 429 and the second with a status outside 400..599 and
  a JSON body, \<open>_miro_post\<close> returns that decoded body; what it did is the request, a
  sleep of 2, and the request again.
\<close>

theorem miro_post_retry_succeeds:
  assumes "2 \<le> tries"
    and "srv (tr @ [Post u p]) = Reply 429 txt b"
    and "srv (tr @ [Post u p, Sleep 2, Post u p]) = Reply code txt' (Some j)"
    and "\<not> is_http_error code"
  shows "miro_post srv u p tries tr = (Inr j, tr @ [Post u p, Sleep 2, Post u p])"
proof -
  from assms(4) have c: "code \<noteq> 429" by (auto simp: is_http_error_def)
  have "miro_post srv u p tries tr = miro_post_from srv u p tries 1 (tr @ [Post u p, Sleep 2])"
    using assms(1,2) by (simp add: miro_post_def miro_post_from.simps[of srv u p tries 0 tr])
  also have "\<dots> = (Inr j, tr @ [Post u p, Sleep 2, Post u p])"
    using assms(1,3,4) c
    by (simp add: miro_post_from.simps[of srv u p tries 1 "tr @ [Post u p, Sleep 2]"])
  finally show ?thesis .
qed

theorem miro_post_retry_succeeds_witness:
  "miro_post rate_limited_once ''https://api.miro.com/v2/boards/b/images'' (JObj []) default_tries []
     = (Inr (JObj [(''id'', JStr ''3458764513820541'')]),
        [Post ''https://api.miro.com/v2/boards/b/images'' (JObj []), Sleep 2,
         Post ''https://api.miro.com/v2/boards/b/images'' (JObj [])])"
  using miro_post_retry_succeeds [of default_tries rate_limited_once "[]"
      "''https://api.miro.com/v2/boards/b/images''" "JObj []" "''Too Many Requests''" None
      201 "[]" "JObj [(''id'', JStr ''3458764513820541'')]"]
  by (simp add: default_tries_def rate_limited_once_def is_http_error_def)

text \<open>
  Claim C1, as stated, fails: with the default two attempts and a board that always
  answers 429, the last attempt does not take the retry branch (\<open>attempt + 1 < tries\<close> is
  false), so \<open>raise_for_status\<close> raises the HTTP error of the 429 reply.
\<close>

theorem miro_post_exhausted_counterexample:
  "miro_post always_rate_limited ''https://api.miro.com/v2/boards/b/images'' (JObj []) default_tries []
     = (Inl (HTTPError 429 ''Too Many Requests''),
        [Post ''https://api.miro.com/v2/boards/b/images'' (JObj []), Sleep 2,
         Post ''https://api.miro.com/v2/boards/b/images'' (JObj [])]) \<and>
   fst (miro_post always_rate_limited ''https://api.miro.com/v2/boards/b/images'' (JObj []) default_tries [])
     \<noteq> Inl (RuntimeError ''Failed after retries'')"
  by (simp add: miro_post_def default_tries_def always_rate_limited_def is_http_error_def
      miro_post_from.simps[of _ _ _ 2 0] miro_post_from.simps[of _ _ _ 2 1])

lemma post_from_all_429:
  "n = nat (tries - attempt - 1) \<Longrightarrow> attempt < tries \<Longrightarrow>
   (\<forall>k \<le> n. \<exists>msg b. srv (tr @ retry_trace u p k) = Reply 429 msg b) \<Longrightarrow>
   \<exists>msg b. srv (tr @ retry_trace u p n) = Reply 429 msg b \<and>
     miro_post_from srv u p tries attempt tr = (Inl (HTTPError 429 msg), tr @ retry_trace u p n)"
proof (induction n arbitrary: attempt tr)
  case 0
  then have last: "\<not> attempt + 1 < tries" by simp
  from "0.prems"(3) obtain msg b where r: "srv (tr @ [Post u p]) = Reply 429 msg b"
    by (auto simp: retry_trace_def)
  with "0.prems"(2) last
  have "miro_post_from srv u p tries attempt tr = (Inl (HTTPError 429 msg), tr @ [Post u p])"
    by (simp add: miro_post_from.simps[of srv u p tries attempt tr] is_http_error_def)
  with r show ?case by (auto simp: retry_trace_def)
next
  case (Suc n)
  then have more: "attempt + 1 < tries" and n: "n = nat (tries - (attempt + 1) - 1)" by simp_all
  from Suc.prems(3) obtain msg b where r: "srv (tr @ [Post u p]) = Reply 429 msg b"
    by (force simp: retry_trace_def)
  have "\<forall>k\<le>n. \<exists>msg b. srv ((tr @ [Post u p, Sleep 2]) @ retry_trace u p k) = Reply 429 msg b"
  proof (intro allI impI)
    fix k assume "k \<le> n"
    then have "Suc k \<le> Suc n" by simp
    with Suc.prems(3) obtain msg b where "srv (tr @ retry_trace u p (Suc k)) = Reply 429 msg b"
      by blast
    then show "\<exists>msg b. srv ((tr @ [Post u p, Sleep 2]) @ retry_trace u p k) = Reply 429 msg b"
      by (simp add: retry_trace_def)
  qed
  from Suc.IH[OF n more this] obtain msg' b' where
    l: "srv ((tr @ [Post u p, Sleep 2]) @ retry_trace u p n) = Reply 429 msg' b'" and
    "miro_post_from srv u p tries (attempt + 1) (tr @ [Post u p, Sleep 2])
       = (Inl (HTTPError 429 msg'), (tr @ [Post u p, Sleep 2]) @ retry_trace u p n)" by blast
  with r more Suc.prems(2)
  have "miro_post_from srv u p tries attempt tr
      = (Inl (HTTPError 429 msg'), tr @ retry_trace u p (Suc n))"
    by (simp add: miro_post_from.simps[of srv u p tries attempt tr] retry_trace_def)
  moreover from l have "srv (tr @ retry_trace u p (Suc n)) = Reply 429 msg' b'"
    by (simp add: retry_trace_def)
  ultimately show ?case by blast
qed

lemma post_from_not_runtime:
  "attempt < tries \<Longrightarrow> fst (miro_post_from srv u p tries attempt tr) \<noteq> Inl (RuntimeError m)"
proof (induction srv u p tries attempt tr rule: miro_post_from.induct)
  case (1 srv url payload tries attempt tr)
  show ?case
  proof (cases "srv (tr @ [Post url payload])")
    case NoReply
    with "1.prems" show ?thesis by (simp add: miro_post_from.simps[of srv url payload tries attempt tr])
  next
    case (Reply code msg body)
    show ?thesis
    proof (cases "code = 429 \<and> attempt + 1 < tries")
      case True
      with "1.IH" "1.prems" Reply show ?thesis
        by (simp add: miro_post_from.simps[of srv url payload tries attempt tr])
    next
      case False
      with "1.prems" Reply show ?thesis
        by (auto simp: miro_post_from.simps[of srv url payload tries attempt tr] Let_def
            split: option.splits if_splits)
    qed
  qed
qed

text \<open>
  Claim C1, amended. When every one of the \<open>tries \<ge> 1\<close> attempts is answered with
  status 429, \<open>_miro_post\<close> raises the HTTP error of the reply to its last request (status
  429 with the body text of that reply), after \<open>tries\<close> requests with a sleep of 2 between
  them. With \<open>tries \<ge> 1\<close> it never raises the RuntimeError; that one is raised exactly
  when \<open>tries \<le> 0\<close>, without any request.
\<close>

theorem miro_post_exhausted:
  "(1 \<le> tries \<and> (\<forall>k < nat tries. \<exists>txt b. srv (tr @ retry_trace u p k) = Reply 429 txt b) \<longrightarrow>
      (\<exists>txt b. srv (tr @ retry_trace u p (nat tries - 1)) = Reply 429 txt b \<and>
               miro_post srv u p tries tr
                 = (Inl (HTTPError 429 txt), tr @ retry_trace u p (nat tries - 1)))) \<and>
   (1 \<le> tries \<longrightarrow> fst (miro_post srv u p tries tr) \<noteq> Inl (RuntimeError m)) \<and>
   (tries \<le> 0 \<longrightarrow> miro_post srv u p tries tr = (Inl (RuntimeError ''Failed after retries''), tr))"
proof (intro conjI impI)
  assume a: "1 \<le> tries \<and> (\<forall>k < nat tries. \<exists>txt b. srv (tr @ retry_trace u p k) = Reply 429 txt b)"
  then have "\<forall>k \<le> nat (tries - 0 - 1). \<exists>txt b. srv (tr @ retry_trace u p k) = Reply 429 txt b"
    by auto
  moreover have "nat (tries - 0 - 1) = nat tries - 1" by simp
  ultimately show "\<exists>txt b. srv (tr @ retry_trace u p (nat tries - 1)) = Reply 429 txt b \<and>
               miro_post srv u p tries tr
                 = (Inl (HTTPError 429 txt), tr @ retry_trace u p (nat tries - 1))"
    using post_from_all_429[of "nat (tries - 0 - 1)" tries 0 srv tr u p] a
    by (simp add: miro_post_def)
next
  assume "1 \<le> tries"
  then show "fst (miro_post srv u p tries tr) \<noteq> Inl (RuntimeError m)"
    using post_from_not_runtime[of 0 tries srv u p tr m] by (simp add: miro_post_def)
next
  assume "tries \<le> 0"
  then show "miro_post srv u p tries tr = (Inl (RuntimeError ''Failed after retries''), tr)"
    by (simp add: miro_post_def miro_post_from.simps[of srv u p tries 0 tr])
qed

theorem miro_post_exhausted_witness:
  "miro_post rate_limited_twice ''https://api.miro.com/v2/boards/uXjVKabc=/images'' (JObj []) default_tries []
      = (Inl (HTTPError 429 ''last''),
         [Post ''https://api.miro.com/v2/boards/uXjVKabc=/images'' (JObj []), Sleep 2,
          Post ''https://api.miro.com/v2/boards/uXjVKabc=/images'' (JObj [])])"
proof -
  let ?u = "''https://api.miro.com/v2/boards/uXjVKabc=/images''"
  have h: "1 \<le> default_tries \<and>
     (\<forall>k < nat default_tries. \<exists>txt b. rate_limited_twice ([] @ retry_trace ?u (JObj []) k) = Reply 429 txt b)"
    by (simp add: rate_limited_twice_def default_tries_def retry_trace_def)
  have l: "rate_limited_twice ([] @ retry_trace ?u (JObj []) (nat default_tries - 1)) = Reply 429 ''last'' None"
    by (simp add: rate_limited_twice_def default_tries_def retry_trace_def)
  from miro_post_exhausted [of default_tries rate_limited_twice "[]" ?u "JObj []"] h
  obtain msg b where
    "rate_limited_twice ([] @ retry_trace ?u (JObj []) (nat default_tries - 1)) = Reply 429 msg b"
    and r: "miro_post rate_limited_twice ?u (JObj []) default_tries []
      = (Inl (HTTPError 429 msg), [] @ retry_trace ?u (JObj []) (nat default_tries - 1))"
    by blast
  with l have "msg = ''last''" by simp
  with r show ?thesis by (simp add: default_tries_def retry_trace_def)
qed

section \<open>Identifier coercion: digit strings\<close>

text \<open>
  The example of the specification, and the general case for identifiers whose digit
  strings are made of the decimal digits \<open>0\<close> to \<open>9\<close>: the result has one element per
  input element, in order, a digit string replaced by its number.
\<close>

lemma coerce_example:
  "coerce_ids_to_numbers [JStr ''123'', JStr ''abc'', JStr ''45x'']
     = Inr [JInt 123, JStr ''abc'', JStr ''45x'']"
  by (simp add: isdigit_def is_digit_char_def is_decimal_char_def int_of_str_def is_int_space_def
      digits_value_def digit_val_def)

lemma dropWhile_hd: "xs \<noteq> [] \<Longrightarrow> \<not> P (hd xs) \<Longrightarrow> dropWhile P xs = xs"
  by (cases xs) auto

lemma decimal_not_space: "is_decimal_char c \<Longrightarrow> \<not> is_int_space c"
  by (auto simp: is_decimal_char_def is_int_space_def)

lemma decimal_not_sign: "is_decimal_char c \<Longrightarrow> c \<noteq> CHR ''-'' \<and> c \<noteq> CHR ''+''"
  by (auto simp: is_decimal_char_def)

lemma int_body_ok_decimal: "list_all is_decimal_char s \<Longrightarrow> int_body_ok b s = (b \<or> s \<noteq> [])"
  by (induction s arbitrary: b) auto

lemma filter_decimal: "list_all is_decimal_char s \<Longrightarrow> filter is_decimal_char s = s"
  by (induction s) auto

lemma int_of_str_decimal:
  assumes "s \<noteq> []" "list_all is_decimal_char s"
  shows "int_of_str s = Inr (digits_value s)"
proof -
  from assms have h: "is_decimal_char (hd s)" by (cases s) auto
  from assms have l: "is_decimal_char (last s)" by (simp add: list_all_iff)
  have 1: "dropWhile is_int_space s = s"
    using assms(1) h by (simp add: dropWhile_hd decimal_not_space)
  have 2: "dropWhile is_int_space (rev s) = rev s"
    using assms(1) l by (simp add: dropWhile_hd decimal_not_space hd_rev)
  show ?thesis
    using assms h 1 2 decimal_not_sign[OF h]
    by (simp add: int_of_str_def int_body_ok_decimal filter_decimal)
qed

lemma coerce_id_decimal:
  "(\<forall>s. v = JStr s \<and> isdigit s \<longrightarrow> list_all is_decimal_char s) \<Longrightarrow> coerce_id v = Inr (coerced v)"
  by (cases v) (auto simp: coerced_def isdigit_def int_of_str_decimal)

lemma coerce_ids_decimal:
  "\<forall>v \<in> set xs. \<forall>s. v = JStr s \<and> isdigit s \<longrightarrow> list_all is_decimal_char s \<Longrightarrow>
   coerce_ids_to_numbers xs = Inr (map coerced xs)"
proof (induction xs)
  case Nil
  then show ?case by simp
next
  case (Cons x xs)
  then have "coerce_id x = Inr (coerced x)" by (intro coerce_id_decimal) simp
  with Cons show ?case by simp
qed

text \<open>
  Claim C9 at the one-element list holding the string of the single character U+00B2.
  The superscript two passes \<open>isdigit\<close>, and
  \<open>int\<close> rejects it: the function raises ValueError instead of returning a list. This
  holds for any string of digit characters with a superscript digit among them.
\<close>

theorem coerce_superscript_raises:
  "isdigit [CHR 0xB2] \<and> coerce_ids_to_numbers [JStr [CHR 0xB2]] = Inl ValueError"
  by (simp add: isdigit_def is_digit_char_def is_decimal_char_def int_of_str_def is_int_space_def)

section \<open>Grouping: the three payload shapes\<close>

lemma miro_post_no_reply:
  assumes "srv (tr @ [Post u p]) = NoReply" "0 < tries"
  shows "miro_post srv u p tries tr = (Inl TransportError, tr @ [Post u p])"
  using assms by (simp add: miro_post_def miro_post_from.simps[of srv u p tries 0 tr])

lemma http_failure_projl: "is_http_failure a \<Longrightarrow> Inl (projl a) = a"
  by (cases a rule: is_http_failure.cases) simp_all

lemma try_payloads_step:
  "try_payloads srv e (p # ps) last_err tr =
     (if is_http_failure (fst (miro_post srv e p default_tries tr))
      then try_payloads srv e ps (Some (projl (fst (miro_post srv e p default_tries tr))))
             (snd (miro_post srv e p default_tries tr))
      else miro_post srv e p default_tries tr)"
proof (cases "miro_post srv e p default_tries tr")
  case (Pair a t)
  then show ?thesis
    by (cases a rule: is_http_failure.cases) simp_all
qed

lemma items_shape_a: "is_items_shape (JObj [(''data'', JObj [(''items'', v)])])"
  by (simp add: is_items_shape_def)

lemma items_shape_b: "\<not> is_items_shape (JObj [(''data'', JObj [(''itemIds'', v)])])"
  by (simp add: is_items_shape_def)

lemma coerce_12: "coerce_ids_to_numbers [JStr ''1'', JStr ''2''] = Inr [JInt 1, JInt 2]"
  by (simp add: isdigit_def is_digit_char_def is_decimal_char_def int_of_str_def is_int_space_def
      digits_value_def digit_val_def)

text \<open>
  Claim C2, as stated, fails: on a board whose connection fails for the first payload
  shape and that accepts the second, \<open>miro_group_items\<close> makes one request and raises the
  connection error; the second shape, which would have succeeded, is never sent.
\<close>

theorem miro_group_items_counterexample:
  "miro_group_items drops_items_shape ''b'' [JStr ''1'', JStr ''2''] []
     = (Inl TransportError,
        [GroupCall ''b'' [JStr ''1'', JStr ''2''],
         Post (groups_endpoint ''b'') (JObj [(''data'', JObj [(''items'', JList [JInt 1, JInt 2])])])]) \<and>
   fst (miro_post drops_items_shape (groups_endpoint ''b'')
          (JObj [(''data'', JObj [(''itemIds'', JList [JStr ''1'', JStr ''2''])])]) default_tries
          [GroupCall ''b'' [JStr ''1'', JStr ''2''],
           Post (groups_endpoint ''b'') (JObj [(''data'', JObj [(''items'', JList [JInt 1, JInt 2])])])])
     = Inr (JObj [(''id'', JStr ''3458764513820999'')])"
proof -
  let ?g = "GroupCall ''b'' [JStr ''1'', JStr ''2'']"
  let ?a = "JObj [(''data'', JObj [(''items'', JList [JInt 1, JInt 2])])]"
  let ?b = "JObj [(''data'', JObj [(''itemIds'', JList [JStr ''1'', JStr ''2''])])]"
  let ?u = "groups_endpoint ''b''"
  have 1: "miro_post drops_items_shape ?u ?a default_tries [?g] = (Inl TransportError, [?g, Post ?u ?a])"
    using miro_post_no_reply[of drops_items_shape "[?g]" ?u ?a default_tries]
    by (simp add: drops_items_shape_def items_shape_a default_tries_def)
  have 2: "miro_post drops_items_shape ?u ?b default_tries [?g, Post ?u ?a]
             = (Inr (JObj [(''id'', JStr ''3458764513820999'')]), [?g, Post ?u ?a, Post ?u ?b])"
    using miro_post_success[of drops_items_shape "[?g, Post ?u ?a]" ?u ?b 201 "[]"
        "JObj [(''id'', JStr ''3458764513820999'')]" default_tries]
    by (simp add: drops_items_shape_def items_shape_b default_tries_def is_http_error_def)
  have "miro_group_items drops_items_shape ''b'' [JStr ''1'', JStr ''2''] [] = (Inl TransportError, [?g, Post ?u ?a])"
    using 1 by (simp add: miro_group_items_def coerce_12 group_payloads_def
        del: coerce_ids_to_numbers.simps)
  with 2 show ?thesis by simp
qed

text \<open>
  Claim C2, amended. For identifiers that the coercion accepts, the three payloads are
  posted in the order nested \<open>items\<close> (coerced), nested \<open>itemIds\<close>, top-level \<open>itemIds\<close>,
  each through \<open>_miro_post\<close>, on the trace the attempt before left. The result is that of
  the first attempt that does not raise \<open>requests.HTTPError\<close>: its decoded reply, or any
  other exception it raised; nothing is sent after it. When the first two raise
  \<open>requests.HTTPError\<close> the result is that of the third, so when all three do, its error.
\<close>

theorem miro_group_items_fallback:
  assumes "coerce_ids_to_numbers item_ids = Inr ids_numbers"
  shows "miro_group_items srv board_id item_ids tr =
     (let url = groups_endpoint board_id;
          r1 = miro_post srv url (JObj [(''data'', JObj [(''items'', JList ids_numbers)])])
                 default_tries (tr @ [GroupCall board_id item_ids]);
          r2 = miro_post srv url (JObj [(''data'', JObj [(''itemIds'', JList item_ids)])])
                 default_tries (snd r1);
          r3 = miro_post srv url (JObj [(''itemIds'', JList item_ids)]) default_tries (snd r2)
      in if \<not> is_http_failure (fst r1) then r1
         else if \<not> is_http_failure (fst r2) then r2
         else r3)"
proof -
  let ?url = "groups_endpoint board_id"
  let ?p1 = "JObj [(''data'', JObj [(''items'', JList ids_numbers)])]"
  let ?p2 = "JObj [(''data'', JObj [(''itemIds'', JList item_ids)])]"
  let ?p3 = "JObj [(''itemIds'', JList item_ids)]"
  let ?r1 = "miro_post srv ?url ?p1 default_tries (tr @ [GroupCall board_id item_ids])"
  let ?r2 = "miro_post srv ?url ?p2 default_tries (snd ?r1)"
  let ?r3 = "miro_post srv ?url ?p3 default_tries (snd ?r2)"
  have start: "miro_group_items srv board_id item_ids tr
      = try_payloads srv ?url [?p1, ?p2, ?p3] None (tr @ [GroupCall board_id item_ids])"
    using assms by (simp add: miro_group_items_def group_payloads_def)
  have s1: "try_payloads srv ?url [?p1, ?p2, ?p3] None (tr @ [GroupCall board_id item_ids])
      = (if is_http_failure (fst ?r1)
         then try_payloads srv ?url [?p2, ?p3] (Some (projl (fst ?r1))) (snd ?r1) else ?r1)"
    by (rule try_payloads_step)
  have s2: "try_payloads srv ?url [?p2, ?p3] (Some (projl (fst ?r1))) (snd ?r1)
      = (if is_http_failure (fst ?r2)
         then try_payloads srv ?url [?p3] (Some (projl (fst ?r2))) (snd ?r2) else ?r2)"
    by (rule try_payloads_step)
  have s3: "try_payloads srv ?url [?p3] (Some (projl (fst ?r2))) (snd ?r2)
      = (if is_http_failure (fst ?r3)
         then try_payloads srv ?url [] (Some (projl (fst ?r3))) (snd ?r3) else ?r3)"
    by (rule try_payloads_step)
  have s4: "is_http_failure (fst ?r3)
      \<Longrightarrow> try_payloads srv ?url [] (Some (projl (fst ?r3))) (snd ?r3) = ?r3"
    by (simp add: http_failure_projl prod_eq_iff)
  show ?thesis
    unfolding start s1 s2 s3 Let_def using s4 by simp
qed

theorem miro_group_items_fallback_witness:
  "miro_group_items always_created ''b'' [JStr ''1'', JStr ''2''] []
     = (Inr (JObj [(''id'', JStr ''3458764513820541'')]),
        [GroupCall ''b'' [JStr ''1'', JStr ''2''],
         Post (groups_endpoint ''b'') (JObj [(''data'', JObj [(''items'', JList [JInt 1, JInt 2])])])])"
proof -
  let ?g = "GroupCall ''b'' [JStr ''1'', JStr ''2'']"
  let ?a = "JObj [(''data'', JObj [(''items'', JList [JInt 1, JInt 2])])]"
  let ?u = "groups_endpoint ''b''"
  have 1: "miro_post always_created ?u ?a default_tries [?g]
             = (Inr (JObj [(''id'', JStr ''3458764513820541'')]), [?g, Post ?u ?a])"
    using miro_post_success[of always_created "[?g]" ?u ?a 201 "[]"
        "JObj [(''id'', JStr ''3458764513820541'')]" default_tries]
    by (simp add: always_created_def default_tries_def is_http_error_def)
  from miro_group_items_fallback [OF coerce_12, of always_created "''b''" "[]"] 1
  show ?thesis by (simp add: Let_def)
qed

section \<open>Start-up check\<close>

text \<open>
  Claim C7. When one of the five required values is unset or empty, \<open>main\<close> ends with
  SystemExit on the trace it was started with: nothing was requested. The message is the
  fixed prefix followed by the names of exactly the unset values, in the order of the
  check, separated by a comma and a space.
\<close>

theorem main_missing_config:
  assumes "unset (FLICKR_API_KEY cfg) \<or> unset (FLICKR_USER_ID cfg) \<or> unset (FLICKR_PHOTOSETID cfg)
           \<or> unset (MIRO_TOKEN cfg) \<or> unset (MIRO_BOARD_ID cfg)"
  shows "main cfg srv to_str tr
           = Some (Inl (SystemExit (''Missing required env vars: '' @ join '', '' (missing cfg))), tr) \<and>
         missing cfg =
           (if unset (FLICKR_API_KEY cfg) then [''FLICKR_API_KEY''] else []) @
           (if unset (FLICKR_USER_ID cfg) then [''FLICKR_USER_ID''] else []) @
           (if unset (FLICKR_PHOTOSETID cfg) then [''FLICKR_PHOTOSET_ID''] else []) @
           (if unset (MIRO_TOKEN cfg) then [''MIRO_TOKEN''] else []) @
           (if unset (MIRO_BOARD_ID cfg) then [''MIRO_BOARD_ID''] else [])"
proof -
  have m: "missing cfg =
           (if unset (FLICKR_API_KEY cfg) then [''FLICKR_API_KEY''] else []) @
           (if unset (FLICKR_USER_ID cfg) then [''FLICKR_USER_ID''] else []) @
           (if unset (FLICKR_PHOTOSETID cfg) then [''FLICKR_PHOTOSET_ID''] else []) @
           (if unset (MIRO_TOKEN cfg) then [''MIRO_TOKEN''] else []) @
           (if unset (MIRO_BOARD_ID cfg) then [''MIRO_BOARD_ID''] else [])"
    by (simp add: missing_def required_def)
  with assms have "missing cfg \<noteq> []" by auto
  then have "main cfg srv to_str tr
           = Some (Inl (SystemExit (''Missing required env vars: '' @ join '', '' (missing cfg))), tr)"
    by (simp add: main_def)
  with m show ?thesis by blast
qed

theorem main_missing_config_witness:
  "main (default_config (Some []) (Some ''12345678@N00'') (Some ''72157600000000000'') None (Some ''uXjVK''))
        always_created (\<lambda>v. []) []
     = Some (Inl (SystemExit ''Missing required env vars: FLICKR_API_KEY, MIRO_TOKEN''), [])"
proof -
  let ?c = "default_config (Some []) (Some ''12345678@N00'') (Some ''72157600000000000'') None (Some ''uXjVK'')"
  have u: "unset (FLICKR_API_KEY ?c)" by (simp add: unset_def default_config_def)
  have "join '', '' (missing ?c) = ''FLICKR_API_KEY, MIRO_TOKEN''"
    by (simp add: missing_def required_def unset_def default_config_def)
  with main_missing_config [of ?c always_created "\<lambda>v. []" "[]"] u
  show ?thesis by simp
qed

section \<open>Grouping is attempted for two identifiers or more\<close>

text \<open>No request and no sleep enters \<open>miro_group_items\<close>; each call of it is one entry.\<close>

lemma group_calls_append [simp]: "group_calls (a @ b) = group_calls a + group_calls b"
  by (simp add: group_calls_def)

lemma group_calls_simps [simp]:
  "group_calls [] = 0"
  "group_calls (Post u p # tr) = group_calls tr"
  "group_calls (Sleep d # tr) = group_calls tr"
  "group_calls (GroupCall b ids # tr) = Suc (group_calls tr)"
  by (simp_all add: group_calls_def)
























section \<open>Album reader: pages and termination\<close>

lemma listing_shape:
  assumes "listing_of r = Some l"
  obtains code msg data where "r = Reply code msg (Some (JObj data))" "\<not> is_http_error code"
proof (cases r)
  case NoReply
  with assms show ?thesis by (simp add: listing_of_def)
next
  case (Reply code msg body)
  show ?thesis
  proof (cases "is_http_error code")
    case True
    with assms Reply show ?thesis by (simp add: listing_of_def)
  next
    case False
    show ?thesis
    proof (cases body)
      case None
      with assms Reply False show ?thesis by (simp add: listing_of_def)
    next
      case (Some data)
      with assms Reply False that show ?thesis
        by (cases data) (simp_all add: listing_of_def)
    qed
  qed
qed

lemma listing_of_ok:
  "\<not> is_http_error code \<Longrightarrow>
   listing_of (Reply code msg (Some (JObj data))) =
     (case map_of data ''photoset'' of
        None \<Rightarrow> Some NoContainer
      | Some (JObj ps) \<Rightarrow>
          (case map_of ps ''photo'' of
             None \<Rightarrow> Some NoContainer
           | Some (JList recs) \<Rightarrow>
               (case total_pages (JObj ps) of
                  Inr n \<Rightarrow> Some (Page recs n)
                | Inl e \<Rightarrow> None)
           | Some other \<Rightarrow> None)
      | Some v \<Rightarrow> if truthy v then None else Some NoContainer)"
  by (simp add: listing_of_def)

lemma read_page_ok:
  assumes "\<not> is_http_error code"
    and "photoset = (case map_of data ''photoset'' of None \<Rightarrow> JNull | Some v \<Rightarrow> v)"
  shows "read_page (Reply code msg (Some (JObj data))) page =
     (if \<not> truthy photoset then Stop (Inr ()) []
      else (case contains_photo photoset of
              Inl e \<Rightarrow> Stop (Inl e) []
            | Inr False \<Rightarrow> Stop (Inr ()) []
            | Inr True \<Rightarrow>
               (case photo_field photoset of
                  Inl e \<Rightarrow> Stop (Inl e) []
                | Inr v \<Rightarrow>
                   (case iterate v of
                      Inl e \<Rightarrow> Stop (Inl e) []
                    | Inr items \<Rightarrow>
                       (case total_pages photoset of
                          Inl e \<Rightarrow> Stop (Inl e) items
                        | Inr n \<Rightarrow> if page \<ge> n then Stop (Inr ()) items else More items)))))"
  using assms(1) unfolding assms(2) by (simp add: read_page_def)

lemma read_page_no_container:
  assumes "listing_of r = Some NoContainer"
  shows "read_page r page = Stop (Inr ()) []"
proof -
  from assms obtain code msg data where
    r: "r = Reply code msg (Some (JObj data))" and ok: "\<not> is_http_error code"
    by (rule listing_shape)
  note l = assms[unfolded r listing_of_ok[OF ok]]
  show ?thesis
  proof (cases "map_of data ''photoset''")
    case None
    then show ?thesis unfolding r read_page_ok[OF ok refl] by simp
  next
    case (Some v)
    show ?thesis
    proof (cases v)
      case (JObj ps)
      show ?thesis
      proof (cases "map_of ps ''photo''")
        case None
        with Some JObj show ?thesis unfolding r read_page_ok[OF ok refl] by simp
      next
        case w: (Some w)
        with l Some JObj have False
          by (cases w; cases "total_pages (JObj ps)") simp_all
        then show ?thesis ..
      qed
    qed (use l Some in \<open>simp_all add: r read_page_ok[OF ok refl] split: if_splits\<close>)
  qed
qed

lemma read_page_page:
  assumes "listing_of r = Some (Page recs n)"
  shows "read_page r page = (if page \<ge> n then Stop (Inr ()) recs else More recs)"
proof -
  from assms obtain code msg data where
    r: "r = Reply code msg (Some (JObj data))" and ok: "\<not> is_http_error code"
    by (rule listing_shape)
  note l = assms[unfolded r listing_of_ok[OF ok]]
  show ?thesis
  proof (cases "map_of data ''photoset''")
    case None
    with l show ?thesis by simp
  next
    case (Some v)
    show ?thesis
    proof (cases v)
      case (JObj ps)
      show ?thesis
      proof (cases "map_of ps ''photo''")
        case None
        with l Some JObj show ?thesis by simp
      next
        case w: (Some w)
        with l Some JObj have w': "w = JList recs" and t: "total_pages (JObj ps) = Inr n"
          by (cases w; cases "total_pages (JObj ps)"; simp)+
        from w have "ps \<noteq> []" by auto
        with Some JObj w w' t show ?thesis unfolding r read_page_ok[OF ok refl] by simp
      qed
    qed (use l Some in \<open>simp_all split: if_splits\<close>)
  qed
qed


lemma read_page_goes_on: "goes_on r p \<Longrightarrow> read_page r p = More (records_of r)"
  by (auto simp: goes_on_def records_of_def read_page_page
      split: option.splits listing.splits)

lemma read_page_stops: "stops r p \<Longrightarrow> read_page r p = Stop (Inr ()) (records_of r)"
  by (auto simp: stops_def records_of_def read_page_page read_page_no_container
      split: option.splits listing.splits)

lemma photos_loop_step:
  "photos_loop srv ps uid key page acc tr =
     (case read_page (srv (tr @ [page_request ps uid key page])) page of
        Stop r items \<Rightarrow> Some (r, acc @ items, tr @ [page_request ps uid key page])
      | More items \<Rightarrow>
          photos_loop srv ps uid key (page + 1) (acc @ items) (tr @ [page_request ps uid key page]))"
  unfolding page_request_def by (rule photos_loop.simps)

lemma photos_loop_run:
  assumes "\<And>j. j < n \<Longrightarrow>
             goes_on (srv (tr @ map (page_request ps uid key) [page..page + int j])) (page + int j)"
    and "stops (srv (tr @ map (page_request ps uid key) [page..page + int n])) (page + int n)"
  shows "photos_loop srv ps uid key page acc tr =
           Some (Inr (),
                 acc @ concat (map (\<lambda>j. records_of (srv (tr @ map (page_request ps uid key) [page..j])))
                                   [page..page + int n]),
                 tr @ map (page_request ps uid key) [page..page + int n])"
  using assms
proof (induction n arbitrary: page acc tr)
  case 0
  then have "stops (srv (tr @ [page_request ps uid key page])) page" by simp
  from read_page_stops[OF this] show ?case
    by (subst photos_loop_step) simp
next
  case (Suc n)
  let ?tr = "tr @ [page_request ps uid key page]"
  have cons: "[page..j] = page # [page + 1..j]" if "page \<le> j" for j
    using that by (rule upto_rec1)
  from Suc.prems(1)[of 0] have "goes_on (srv ?tr) page" by simp
  from read_page_goes_on[OF this]
  have step: "photos_loop srv ps uid key page acc tr
      = photos_loop srv ps uid key (page + 1) (acc @ records_of (srv ?tr)) ?tr"
    by (subst photos_loop_step) simp
  have more: "goes_on (srv (?tr @ map (page_request ps uid key) [page + 1..page + 1 + int j]))
                (page + 1 + int j)" if "j < n" for j
  proof -
    from that have "Suc j < Suc n" by simp
    from Suc.prems(1)[OF this]
    have "goes_on (srv (tr @ map (page_request ps uid key) [page..page + 1 + int j]))
            (page + 1 + int j)" by (simp add: add.assoc)
    moreover have "[page..page + 1 + int j] = page # [page + 1..page + 1 + int j]"
      by (rule cons) simp
    ultimately show ?thesis by simp
  qed
  have suc: "page + int (Suc n) = page + 1 + int n" by simp
  have last_eq: "[page..page + int (Suc n)] = page # [page + 1..page + 1 + int n]"
    unfolding suc by (rule cons) simp
  have stop: "stops (srv (?tr @ map (page_request ps uid key) [page + 1..page + 1 + int n]))
                (page + 1 + int n)"
    using Suc.prems(2) unfolding last_eq unfolding suc by simp
  have recs: "map (\<lambda>j. records_of (srv (?tr @ map (page_request ps uid key) [page + 1..j])))
                  [page + 1..page + 1 + int n]
            = map (\<lambda>j. records_of (srv (tr @ map (page_request ps uid key) [page..j])))
                  [page + 1..page + 1 + int n]"
    by (rule map_cong) (simp_all add: cons)
  have "photos_loop srv ps uid key (page + 1) (acc @ records_of (srv ?tr)) ?tr
      = Some (Inr (),
              (acc @ records_of (srv ?tr))
                @ concat (map (\<lambda>j. records_of (srv (?tr @ map (page_request ps uid key) [page + 1..j])))
                              [page + 1..page + 1 + int n]),
              ?tr @ map (page_request ps uid key) [page + 1..page + 1 + int n])"
    by (rule Suc.IH[OF more stop])
  then show ?case
    unfolding step recs last_eq by simp
qed

lemma photos_loop_diverges:
  assumes "photos_loop srv ps uid key page acc tr = Some y"
    and "\<forall>j \<ge> page. goes_on (srv (tr0 @ map (page_request ps uid key) [1..j])) j"
    and "tr = tr0 @ map (page_request ps uid key) [1..page - 1]"
    and "1 \<le> page"
  shows False
  using assms
proof (induction srv ps uid key page acc tr y rule: photos_loop.raw_induct[rotated 1, consumes 1])
  case (1 f srv ps uid key page acc tr y)
  have snoc: "[1..page] = [1..page - 1] @ [page]"
    using "1.prems"(3) by (rule upto_rec2)
  let ?tr = "tr @ [page_request ps uid key page]"
  have tr': "?tr = tr0 @ map (page_request ps uid key) [1..page]"
    using "1.prems"(2) by (simp add: snoc)
  from "1.prems"(1) have "goes_on (srv ?tr) page" unfolding tr' by simp
  from read_page_goes_on[OF this] "1.hyps"
  have "f srv ps uid key (page + 1) (acc @ records_of (srv ?tr)) ?tr = Some y"
    by (simp add: page_request_def)
  from "1.IH"[OF this] "1.prems"(1,3) tr' show False by simp
qed


lemma reader_stops_at:
  assumes "1 \<le> k"
    and "\<forall>j. 1 \<le> j \<and> j < k \<longrightarrow> goes_on (srv (tr @ page_requests ps uid key j)) j"
    and "stops (srv (tr @ page_requests ps uid key k)) k"
  shows "flickr_photos_in_photoset srv ps uid key tr =
           Some (Inr (),
                 concat (map (\<lambda>j. records_of (srv (tr @ page_requests ps uid key j))) [1..k]),
                 tr @ page_requests ps uid key k)"
proof -
  define n where "n = nat (k - 1)"
  with assms(1) have k: "k = 1 + int n" by simp
  have more: "goes_on (srv (tr @ map (page_request ps uid key) [1..1 + int j])) (1 + int j)"
    if "j < n" for j
    using assms(2) that k by (simp add: page_requests_def)
  have stop: "stops (srv (tr @ map (page_request ps uid key) [1..1 + int n])) (1 + int n)"
    using assms(3) k by (simp add: page_requests_def)
  from photos_loop_run[of n srv tr ps uid key 1 "[]", OF more stop]
  show ?thesis
    unfolding flickr_photos_in_photoset_def page_requests_def k by simp
qed

lemma reader_never_stops:
  assumes "\<forall>j \<ge> 1. goes_on (srv (tr @ page_requests ps uid key j)) j"
  shows "flickr_photos_in_photoset srv ps uid key tr = None"
proof (cases "flickr_photos_in_photoset srv ps uid key tr")
  case None
  then show ?thesis .
next
  case (Some y)
  then have "photos_loop srv ps uid key 1 [] tr = Some y"
    by (simp add: flickr_photos_in_photoset_def)
  from photos_loop_diverges[OF this, of tr] assms have False
    by (simp add: page_requests_def)
  then show ?thesis ..
qed

lemma page_requests_2:
  "page_requests ps uid key 1 = [page_request ps uid key 1]"
  "page_requests ps uid key 2 = [page_request ps uid key 1, page_request ps uid key 2]"
  by (simp_all add: page_requests_def upto_rec1)

lemma digit_chars:
  "\<forall>k < 10. is_decimal_char (''0123456789'' ! k) \<and> digit_val (''0123456789'' ! k) = int k"
  by (simp add: numeral_eq_Suc All_less_Suc is_decimal_char_def digit_val_def)

lemma digit_char:
  assumes "n < 10"
  shows "is_decimal_char (''0123456789'' ! n) \<and> digit_val (''0123456789'' ! n) = int n"
  using assms digit_chars by blast

lemma digits_value_snoc: "digits_value (xs @ [c]) = 10 * digits_value xs + digit_val c"
  by (simp add: digits_value_def)

lemma str_nat_decimal:
  "str_nat n \<noteq> [] \<and> list_all is_decimal_char (str_nat n) \<and> digits_value (str_nat n) = int n"
proof (induction n rule: str_nat.induct)
  case (1 n)
  show ?case
  proof (cases "n < 10")
    case True
    with digit_char[OF True] show ?thesis
      by (simp add: str_nat.simps[of n] digits_value_def)
  next
    case False
    have m: "n mod 10 < 10" by simp
    from False "1.IH" have ih: "list_all is_decimal_char (str_nat (n div 10))"
      "digits_value (str_nat (n div 10)) = int (n div 10)" by simp_all
    have "int n = 10 * int (n div 10) + int (n mod 10)" by presburger
    with False digit_char[OF m] ih show ?thesis
      by (simp add: str_nat.simps[of n] digits_value_snoc)
  qed
qed

lemma int_of_str_str_nat: "int_of_str (str_nat n) = Inr (int n)"
  using str_nat_decimal[of n] int_of_str_decimal[of "str_nat n"] by simp

lemma reports_total_pages:
  assumes "reports ps n"
  shows "total_pages (JObj ps) = Inr n"
proof (cases "map_of ps ''pages''")
  case None
  with assms show ?thesis by (simp add: reports_def total_pages_def)
next
  case (Some v)
  with assms show ?thesis
    by (cases v) (simp_all add: reports_def total_pages_def int_of_str_str_nat)
qed

lemma is_http_error_iff: "is_http_error code \<longleftrightarrow> 400 \<le> code \<and> code < 600"
  by (simp add: is_http_error_def)

lemma shows_page_listing:
  assumes "shows_page r recs n"
  shows "listing_of r = Some (Page recs n)"
proof (cases r)
  case NoReply
  with assms show ?thesis by (simp add: shows_page_def)
next
  case (Reply code msg body)
  show ?thesis
  proof (cases body)
    case None
    with assms Reply show ?thesis by (simp add: shows_page_def)
  next
    case (Some data)
    show ?thesis
    proof (cases data)
      case (JObj kvs)
      from assms Reply Some JObj have ok: "\<not> is_http_error code"
        by (simp add: shows_page_def is_http_error_iff)
      from assms Reply Some JObj obtain ps where
        ps: "map_of kvs ''photoset'' = Some (JObj ps)"
        and ph: "map_of ps ''photo'' = Some (JList recs)" and rp: "reports ps n"
        by (auto simp: shows_page_def split: option.splits json.splits)
      from reports_total_pages[OF rp] ps ph show ?thesis
        unfolding Reply Some JObj listing_of_ok[OF ok] by simp
    qed (use assms Reply Some in \<open>simp_all add: shows_page_def\<close>)
  qed
qed

lemma lacks_container_listing:
  assumes "lacks_container r"
  shows "listing_of r = Some NoContainer"
proof (cases r)
  case NoReply
  with assms show ?thesis by (simp add: lacks_container_def)
next
  case (Reply code msg body)
  show ?thesis
  proof (cases body)
    case None
    with assms Reply show ?thesis by (simp add: lacks_container_def)
  next
    case (Some data)
    show ?thesis
    proof (cases data)
      case (JObj kvs)
      from assms Reply Some JObj have ok: "\<not> is_http_error code"
        by (simp add: lacks_container_def is_http_error_iff)
      from assms Reply Some JObj
      have c: "(case map_of kvs ''photoset'' of
             None \<Rightarrow> True
           | Some JNull \<Rightarrow> True
           | Some (JObj ps) \<Rightarrow> map_of ps ''photo'' = None
           | _ \<Rightarrow> False)" by (simp add: lacks_container_def)
      show ?thesis
      proof (cases "map_of kvs ''photoset''")
        case None
        then show ?thesis unfolding Reply Some JObj listing_of_ok[OF ok] by simp
      next
        case v: (Some v)
        with c show ?thesis unfolding Reply Some JObj listing_of_ok[OF ok]
          by (cases v) simp_all
      qed
    qed (use assms Reply Some in \<open>simp_all add: lacks_container_def\<close>)
  qed
qed


lemma shows_page_goes_on: "shows_page r recs n \<Longrightarrow> p < n \<Longrightarrow> goes_on r p \<and> records_of r = recs"
  by (simp add: goes_on_def records_of_def shows_page_listing)

lemma shows_page_stops: "shows_page r recs n \<Longrightarrow> n \<le> p \<Longrightarrow> stops r p \<and> records_of r = recs"
  by (simp add: stops_def records_of_def shows_page_listing)

lemma lacks_container_stops: "lacks_container r \<Longrightarrow> stops r p \<and> records_of r = []"
  by (simp add: stops_def records_of_def lacks_container_listing)

lemma reader_ends_at:
  assumes k: "1 \<le> k"
    and more: "\<forall>j. 1 \<le> j \<and> j < k \<longrightarrow>
             shows_page (srv (tr @ page_requests ps uid key j)) (recs j) (tot j) \<and> j < tot j"
    and stop: "lacks_container (srv (tr @ page_requests ps uid key k)) \<and> recs k = [] \<or>
             shows_page (srv (tr @ page_requests ps uid key k)) (recs k) (tot k) \<and> tot k \<le> k"
  shows "flickr_photos_in_photoset srv ps uid key tr =
           Some (Inr (), concat (map recs [1..k]), tr @ page_requests ps uid key k)"
proof -
  have g: "\<forall>j. 1 \<le> j \<and> j < k \<longrightarrow> goes_on (srv (tr @ page_requests ps uid key j)) j"
    using more shows_page_goes_on by blast
  have s: "stops (srv (tr @ page_requests ps uid key k)) k"
    using stop shows_page_stops lacks_container_stops by blast
  have r: "records_of (srv (tr @ page_requests ps uid key j)) = recs j" if "j \<in> set [1..k]" for j
  proof (cases "j < k")
    case True
    with that more shows_page_goes_on show ?thesis by force
  next
    case False
    with that have "j = k" by simp
    with stop shows_page_stops lacks_container_stops show ?thesis by metis
  qed
  have "map (\<lambda>j. records_of (srv (tr @ page_requests ps uid key j))) [1..k] = map recs [1..k]"
    by (rule map_cong) (simp_all add: r)
  with reader_stops_at[OF k g s] show ?thesis by simp
qed

lemma reader_goes_on_for_ever:
  assumes "\<forall>j \<ge> 1. shows_page (srv (tr @ page_requests ps uid key j)) (recs j) (tot j) \<and> j < tot j"
  shows "flickr_photos_in_photoset srv ps uid key tr = None"
proof (rule reader_never_stops)
  show "\<forall>j \<ge> 1. goes_on (srv (tr @ page_requests ps uid key j)) j"
    using assms shows_page_goes_on by blast
qed

lemma mock_listing_shows:
  "shows_page (mock_listing (tr @ [page_request ps uid key 1])) (replicate 500 mock_record) 2"
  "shows_page (mock_listing (tr @ [page_request ps uid key 2])) (replicate 10 mock_record) 2"
  by (simp_all add: mock_listing_def page_request_def flickr_params_def mock_page_def
      shows_page_def reports_def)

lemma mock_listing_ends:
  "flickr_photos_in_photoset mock_listing ps uid key []
     = Some (Inr (), replicate 510 mock_record, page_requests ps uid key 2)"
proof -
  let ?recs = "\<lambda>j::int. if j = 1 then replicate 500 mock_record else replicate 10 mock_record"
  have more: "\<forall>j. 1 \<le> j \<and> j < 2 \<longrightarrow>
      shows_page (mock_listing ([] @ page_requests ps uid key j)) (?recs j) ((\<lambda>j. 2) j) \<and> j < (\<lambda>j. 2) j"
  proof (intro allI impI)
    fix j :: int assume "1 \<le> j \<and> j < 2"
    then have "j = 1" by simp
    then show "shows_page (mock_listing ([] @ page_requests ps uid key j)) (?recs j) ((\<lambda>j. 2) j) \<and> j < (\<lambda>j. 2) j"
      using mock_listing_shows(1)[of "[]" ps uid key] by (simp add: page_requests_2)
  qed
  have stop: "lacks_container (mock_listing ([] @ page_requests ps uid key 2)) \<and> ?recs 2 = [] \<or>
      shows_page (mock_listing ([] @ page_requests ps uid key 2)) (?recs 2) ((\<lambda>j. 2) 2) \<and> (\<lambda>j. 2) 2 \<le> (2::int)"
    using mock_listing_shows(2)[of "[page_request ps uid key 1]" ps uid key]
    by (simp add: page_requests_2)
  have "[1..2] = [1, 2::int]" by (simp add: upto_rec1)
  moreover have "replicate 500 mock_record @ replicate 10 mock_record = replicate 510 mock_record"
    by (simp add: replicate_add[symmetric])
  ultimately show ?thesis
    using reader_ends_at[of 2 mock_listing "[]" ps uid key ?recs "\<lambda>j. 2", OF _ more stop]
    by simp
qed

text \<open>
  Claim C3. Started on the trace \<open>tr\<close>, the reader requests the pages \<open>1, 2, ...\<close> with
  \<open>per_page = 500\<close>, one request per pass. If page \<open>k\<close> is the first whose reply lacks the
  container (or its photo array) or reports a total of at most \<open>k\<close> pages, while every
  page before holds records and reports more pages than its number, the reader ends
  there: it has requested exactly the pages \<open>1\<close> to \<open>k\<close> and yielded the records of their
  replies in order. If every page reports more pages than its number, it never ends.
  For the listing that reports 2 pages, with 500 and then 10 records, it yields 510
  records with the two requests for pages 1 and 2.
\<close>

theorem flickr_photos_in_photoset_pages:
  "(1 \<le> k \<and>
    (\<forall>j. 1 \<le> j \<and> j < k \<longrightarrow>
        shows_page (srv (tr @ page_requests ps uid key j)) (recs j) (tot j) \<and> j < tot j) \<and>
    (lacks_container (srv (tr @ page_requests ps uid key k)) \<and> recs k = [] \<or>
     shows_page (srv (tr @ page_requests ps uid key k)) (recs k) (tot k) \<and> tot k \<le> k) \<longrightarrow>
    flickr_photos_in_photoset srv ps uid key tr =
      Some (Inr (), concat (map recs [1..k]), tr @ page_requests ps uid key k)) \<and>
   ((\<forall>j \<ge> 1. shows_page (srv (tr @ page_requests ps uid key j)) (recs j) (tot j) \<and> j < tot j) \<longrightarrow>
    flickr_photos_in_photoset srv ps uid key tr = None) \<and>
   page_requests ps uid key k = map (\<lambda>j. Get FLICKR_ENDPOINT (flickr_params ps uid key j)) [1..k] \<and>
   map_of (flickr_params ps uid key i) ''page'' = Some (JInt i) \<and>
   map_of (flickr_params ps uid key i) ''per_page'' = Some (JInt 500) \<and>
   flickr_photos_in_photoset mock_listing ps uid key []
     = Some (Inr (), replicate 510 mock_record,
             [Get FLICKR_ENDPOINT (flickr_params ps uid key 1),
              Get FLICKR_ENDPOINT (flickr_params ps uid key 2)])"
proof (intro conjI impI)
  assume "1 \<le> k \<and>
    (\<forall>j. 1 \<le> j \<and> j < k \<longrightarrow>
        shows_page (srv (tr @ page_requests ps uid key j)) (recs j) (tot j) \<and> j < tot j) \<and>
    (lacks_container (srv (tr @ page_requests ps uid key k)) \<and> recs k = [] \<or>
     shows_page (srv (tr @ page_requests ps uid key k)) (recs k) (tot k) \<and> tot k \<le> k)"
  then show "flickr_photos_in_photoset srv ps uid key tr =
      Some (Inr (), concat (map recs [1..k]), tr @ page_requests ps uid key k)"
    using reader_ends_at[of k srv tr ps uid key recs tot] by blast
next
  assume "\<forall>j \<ge> 1. shows_page (srv (tr @ page_requests ps uid key j)) (recs j) (tot j) \<and> j < tot j"
  then show "flickr_photos_in_photoset srv ps uid key tr = None"
    by (rule reader_goes_on_for_ever)
next
  show "page_requests ps uid key k = map (\<lambda>j. Get FLICKR_ENDPOINT (flickr_params ps uid key j)) [1..k]"
    by (simp add: page_requests_def page_request_def)
next
  show "map_of (flickr_params ps uid key i) ''page'' = Some (JInt i)"
    by (simp add: flickr_params_def)
next
  show "map_of (flickr_params ps uid key i) ''per_page'' = Some (JInt 500)"
    by (simp add: flickr_params_def)
next
  show "flickr_photos_in_photoset mock_listing ps uid key []
     = Some (Inr (), replicate 510 mock_record,
             [Get FLICKR_ENDPOINT (flickr_params ps uid key 1),
              Get FLICKR_ENDPOINT (flickr_params ps uid key 2)])"
    using mock_listing_ends[of ps uid key] by (simp add: page_requests_2 page_request_def)
qed

lemma mock_listing3_shows:
  "shows_page (mock_listing3 (tr @ [page_request ps uid key j]))
     (replicate (if j = 3 then 1 else 2) mock_record) 3"
  by (simp add: mock_listing3_def page_request_def flickr_params_def shows_page_def reports_def
      str_nat.simps[of 3])

lemma page_requests_snoc:
  "1 \<le> j \<Longrightarrow> page_requests ps uid key j = page_requests ps uid key (j - 1) @ [page_request ps uid key j]"
  by (simp add: page_requests_def upto_rec2)

theorem flickr_photos_in_photoset_pages_witness:
  "flickr_photos_in_photoset mock_listing3 (JStr ''72157600000000000'') (JStr ''12345678@N00'') (JStr ''k'') []
     = Some (Inr (), replicate 5 mock_record,
             page_requests (JStr ''72157600000000000'') (JStr ''12345678@N00'') (JStr ''k'') 3) \<and>
   length (page_requests (JStr ''72157600000000000'') (JStr ''12345678@N00'') (JStr ''k'') 3) = 3"
proof -
  let ?ps = "JStr ''72157600000000000''" and ?uid = "JStr ''12345678@N00''" and ?key = "JStr ''k''"
  let ?recs = "\<lambda>j::int. replicate (if j = 3 then 1 else 2) mock_record"
  have sh: "shows_page (mock_listing3 ([] @ page_requests ?ps ?uid ?key j)) (?recs j) 3" if "1 \<le> j" for j
    using mock_listing3_shows[of "page_requests ?ps ?uid ?key (j - 1)" ?ps ?uid ?key j] that
    by (simp add: page_requests_snoc[of j])
  have h: "1 \<le> (3::int) \<and>
    (\<forall>j. 1 \<le> j \<and> j < 3 \<longrightarrow>
        shows_page (mock_listing3 ([] @ page_requests ?ps ?uid ?key j)) (?recs j) ((\<lambda>j. 3) j) \<and> j < (\<lambda>j. 3) j) \<and>
    (lacks_container (mock_listing3 ([] @ page_requests ?ps ?uid ?key 3)) \<and> ?recs 3 = [] \<or>
     shows_page (mock_listing3 ([] @ page_requests ?ps ?uid ?key 3)) (?recs 3) ((\<lambda>j. 3) 3) \<and> (\<lambda>j. 3) 3 \<le> (3::int))"
  proof (intro conjI allI impI)
    fix j :: int assume "1 \<le> j \<and> j < 3"
    then show "shows_page (mock_listing3 ([] @ page_requests ?ps ?uid ?key j)) (?recs j) ((\<lambda>j. 3) j)"
      using sh[of j] by simp
  next
    fix j :: int assume "1 \<le> j \<and> j < 3"
    then show "j < (\<lambda>j. 3) j" by simp
  next
    show "lacks_container (mock_listing3 ([] @ page_requests ?ps ?uid ?key 3)) \<and> ?recs 3 = [] \<or>
     shows_page (mock_listing3 ([] @ page_requests ?ps ?uid ?key 3)) (?recs 3) ((\<lambda>j. 3) 3) \<and> (\<lambda>j. 3) 3 \<le> (3::int)"
      using sh[of 3] by simp
  qed simp
  from flickr_photos_in_photoset_pages[of 3 mock_listing3 "[]" ?ps ?uid ?key ?recs "\<lambda>j. 3"] h
  have "flickr_photos_in_photoset mock_listing3 ?ps ?uid ?key [] =
      Some (Inr (), concat (map ?recs [1..3]), [] @ page_requests ?ps ?uid ?key 3)"
    by blast
  moreover have "[1..3] = [1, 2, 3::int]" by (simp add: upto_rec1)
  moreover have "length (page_requests ?ps ?uid ?key 3) = 3" by (simp add: page_requests_def)
  ultimately show ?thesis by (simp add: numeral_eq_Suc)
qed

end
